theory Spec2Isabelle
  imports Complex_Main "HOL-Library.Word"
begin

section \<open>A reliable byte stream over datagrams: the model of main.py\<close>

text \<open>
  The theory follows \<^verbatim>\<open>src/main.py\<close>: the segment class with its wire codec, the
  datagram endpoint, and the protocol object with its three cursors, two priority
  queues and delivery buffer. Python integers are \<open>int\<close>, byte strings are lists of
  8-bit words, exceptions are values of a sum type, and every method of the protocol
  object takes the object's state and returns it updated, next to the result or the
  exception that left the method.
\<close>

subsection \<open>Bytes and Python slicing\<close>

type_synonym byte = "8 word"
type_synonym bytes = "byte list"

text \<open>The exceptions that can leave the code: \<^verbatim>\<open>raise ValueError()\<close> in the transmit
  path, and the \<^verbatim>\<open>OverflowError\<close> of \<^verbatim>\<open>int.to_bytes\<close>.\<close>

datatype error = ValueError | OverflowError

text \<open>\<^verbatim>\<open>xs[:i]\<close> and \<^verbatim>\<open>xs[i:]\<close> for a Python integer \<open>i\<close>: a negative index counts from
  the end, and every index is clamped to the sequence.\<close>

definition py_take :: "int \<Rightarrow> 'a list \<Rightarrow> 'a list" where
  "py_take i xs = (if i < 0 then take (nat (int (length xs) + i)) xs else take (nat i) xs)"

definition py_drop :: "int \<Rightarrow> 'a list \<Rightarrow> 'a list" where
  "py_drop i xs = (if i < 0 then drop (nat (int (length xs) + i)) xs else drop (nat i) xs)"

text \<open>\<^verbatim>\<open>int.from_bytes(bs, "big")\<close>, unsigned; the empty byte string reads as 0.\<close>

definition from_bytes_big :: "bytes \<Rightarrow> int" where
  "from_bytes_big bs = foldl (\<lambda>acc b. acc * 256 + uint b) 0 bs"

text \<open>The \<open>k\<close> low-order base-256 digits of \<open>n\<close>, most significant first.\<close>

fun big_endian :: "nat \<Rightarrow> int \<Rightarrow> bytes" where
  "big_endian 0 n = []"
| "big_endian (Suc k) n = big_endian k (n div 256) @ [word_of_int (n mod 256)]"

text \<open>\<^verbatim>\<open>n.to_bytes(8, "big")\<close>: raises \<^verbatim>\<open>OverflowError\<close> for a negative integer and for
  one that does not fit in 8 bytes.\<close>

definition to_bytes8 :: "int \<Rightarrow> error + bytes" where
  "to_bytes8 n = (if 0 \<le> n \<and> n < 2 ^ 64 then Inr (big_endian 8 n) else Inl OverflowError)"

subsection \<open>TCPSegment\<close>

record TCPSegment =
  seq_number :: int
  ack_number :: int
  data :: bytes
  acknowledged :: bool
  sending_time :: rat

definition ACK_TIMEOUT :: rat where
  "ACK_TIMEOUT = 1 / 100"

text \<open>The constructor: \<open>now\<close> is the reading of \<^verbatim>\<open>time.time()\<close> it takes.\<close>

definition TCPSegment_init :: "rat \<Rightarrow> int \<Rightarrow> int \<Rightarrow> bytes \<Rightarrow> TCPSegment" where
  "TCPSegment_init now sq ak bs =
     \<lparr>seq_number = sq, ack_number = ak, data = bs, acknowledged = False, sending_time = now\<rparr>"

definition dump :: "TCPSegment \<Rightarrow> error + bytes" where
  "dump segment =
     (case to_bytes8 (seq_number segment) of
        Inl e \<Rightarrow> Inl e
      | Inr sq \<Rightarrow>
          (case to_bytes8 (ack_number segment) of
             Inl e \<Rightarrow> Inl e
           | Inr ak \<Rightarrow> Inr (sq @ ak @ data segment)))"

text \<open>\<^verbatim>\<open>TCPSegment.load\<close>: three slices and the constructor. Neither a slice nor
  \<^verbatim>\<open>int.from_bytes\<close> raises on a short input, so the function has no error branch.\<close>

definition load :: "rat \<Rightarrow> bytes \<Rightarrow> TCPSegment" where
  "load now bs =
     TCPSegment_init now (from_bytes_big (take 8 bs)) (from_bytes_big (take 8 (drop 8 bs)))
       (drop 16 bs)"

text \<open>\<^verbatim>\<open>__len__\<close>, \<^verbatim>\<open>__lt__\<close> and \<^verbatim>\<open>__eq__\<close>: length of the payload, and order and
  equality by sequence number alone.\<close>

definition seg_len :: "TCPSegment \<Rightarrow> nat" where
  "seg_len segment = length (data segment)"

definition seg_lt :: "TCPSegment \<Rightarrow> TCPSegment \<Rightarrow> bool" where
  "seg_lt a b = (seq_number a < seq_number b)"

definition seg_eq :: "TCPSegment \<Rightarrow> TCPSegment \<Rightarrow> bool" where
  "seg_eq a b = (seq_number a = seq_number b)"

subsection \<open>The datagram endpoint and the clock\<close>

text \<open>
  The socket and the clock are outside the repository; the model takes what they answer
  as parameters. \<open>sendto_ret W i d\<close> is what \<^verbatim>\<open>socket.sendto\<close> returns for the datagram
  \<open>d\<close> when \<open>i\<close> datagrams were sent before it, and \<open>clock W i\<close> is the \<open>i\<close>-th reading of
  \<^verbatim>\<open>time.time()\<close> (a rational: floating-point rounding is not modelled).
\<close>

record world =
  sendto_ret :: "nat \<Rightarrow> bytes \<Rightarrow> int"
  clock :: "nat \<Rightarrow> rat"

text \<open>What the next calls of \<^verbatim>\<open>recvfrom\<close> meet: a datagram, or \<^verbatim>\<open>socket.error\<close> (the timeout
  ran out, the endpoint failed).\<close>

datatype rx_event = Datagram bytes | SocketError

datatype rx_result = Received bytes | Raised | Blocked

subsection \<open>MyTCPProtocol: the state of a connection\<close>

text \<open>
  The attributes of the object, then the endpoint as the object sees it: the timeout
  set on the socket, the events its next \<^verbatim>\<open>recvfrom\<close> calls will meet (when the list is
  empty no datagram ever arrives), the datagrams handed to \<^verbatim>\<open>sendto\<close> so far, and two
  counters: the readings of the clock taken, and the \<^verbatim>\<open>recvfrom\<close> calls that raised.
  A priority queue of \<^verbatim>\<open>(seq_number, segment)\<close> pairs is a list kept in the order of
  its keys: \<^verbatim>\<open>put\<close> inserts by key, \<^verbatim>\<open>get\<close> takes the head, \<^verbatim>\<open>empty()\<close> tests for \<open>[]\<close>.
  Among entries of one key the list keeps the latest first; the heap of the library
  may keep another order, and no theorem below rests on the order among equal keys,
  nor on the list being in order at all. \<^verbatim>\<open>sendto\<close> is taken to return: a send that
  raises is not modelled.
\<close>

record MyTCPProtocol =
  sent_bytes_cnt :: int
  delivered_bytes_cnt :: int
  received_bytes_cnt :: int
  send_window :: "(int \<times> TCPSegment) list"
  recv_window :: "(int \<times> TCPSegment) list"
  buffer :: bytes
  sock_timeout :: "rat option"
  inbox :: "rx_event list"
  outbox :: "bytes list"
  clock_reads :: nat
  recv_errors :: nat

definition max_data_sz :: int where
  "max_data_sz = 1024"

definition window_sz :: int where
  "window_sz = 4096"

definition max_lag :: int where
  "max_lag = 64"

text \<open>The object after \<^verbatim>\<open>__init__\<close>, on an endpoint that will meet the events \<open>evs\<close>.\<close>

definition init :: "rx_event list \<Rightarrow> MyTCPProtocol" where
  "init evs =
     \<lparr>sent_bytes_cnt = 0, delivered_bytes_cnt = 0, received_bytes_cnt = 0,
      send_window = [], recv_window = [], buffer = [],
      sock_timeout = None, inbox = evs, outbox = [], clock_reads = 0, recv_errors = 0\<rparr>"

definition pq_put :: "int \<times> TCPSegment \<Rightarrow> (int \<times> TCPSegment) list \<Rightarrow> (int \<times> TCPSegment) list" where
  "pq_put x q = insort_key fst x q"

definition time_time :: "world \<Rightarrow> MyTCPProtocol \<Rightarrow> rat \<times> MyTCPProtocol" where
  "time_time W s = (clock W (clock_reads s), s\<lparr>clock_reads := Suc (clock_reads s)\<rparr>)"

definition sendto :: "world \<Rightarrow> bytes \<Rightarrow> MyTCPProtocol \<Rightarrow> int \<times> MyTCPProtocol" where
  "sendto W d s = (sendto_ret W (length (outbox s)) d, s\<lparr>outbox := outbox s @ [d]\<rparr>)"

text \<open>\<^verbatim>\<open>recvfrom(n)\<close>: the next datagram, cut to \<open>n\<close> bytes. With no event left the call
  times out when a timeout is set, and never returns when none is.\<close>

definition recvfrom :: "nat \<Rightarrow> MyTCPProtocol \<Rightarrow> rx_result \<times> MyTCPProtocol" where
  "recvfrom n s =
     (case inbox s of
        [] \<Rightarrow> (if sock_timeout s = None then (Blocked, s)
               else (Raised, s\<lparr>recv_errors := Suc (recv_errors s)\<rparr>))
      | Datagram msg # evs \<Rightarrow> (Received (take n msg), s\<lparr>inbox := evs\<rparr>)
      | SocketError # evs \<Rightarrow> (Raised, s\<lparr>inbox := evs, recv_errors := Suc (recv_errors s)\<rparr>))"

text \<open>The \<^verbatim>\<open>expired\<close> property: the clock is read only for a segment not acknowledged.\<close>

definition expired :: "world \<Rightarrow> TCPSegment \<Rightarrow> MyTCPProtocol \<Rightarrow> bool \<times> MyTCPProtocol" where
  "expired W segment s =
     (if acknowledged segment then (False, s)
      else (case time_time W s of (now, s1) \<Rightarrow> (now - sending_time segment > ACK_TIMEOUT, s1)))"

subsection \<open>The transmit path\<close>

text \<open>\<^verbatim>\<open>_send_segment\<close>. The datagram is handed to the transport before the sequence
  number is compared with the cursor.\<close>

definition store_sent ::
  "world \<Rightarrow> TCPSegment \<Rightarrow> int \<Rightarrow> MyTCPProtocol \<Rightarrow> (error + int) \<times> MyTCPProtocol" where
  "store_sent W segment sent_length s =
     (if data segment \<noteq> [] then
        (case time_time W s of (now, s1) \<Rightarrow>
           let stored = segment\<lparr>data := py_take sent_length (data segment), sending_time := now\<rparr>
           in (Inr sent_length,
               s1\<lparr>send_window := pq_put (seq_number stored, stored) (send_window s1)\<rparr>))
      else (Inr sent_length, s))"

definition send_segment ::
  "world \<Rightarrow> TCPSegment \<Rightarrow> MyTCPProtocol \<Rightarrow> (error + int) \<times> MyTCPProtocol" where
  "send_segment W segment s =
     (case dump segment of
        Inl e \<Rightarrow> (Inl e, s)
      | Inr wire \<Rightarrow>
          (case sendto W wire s of (ret, s1) \<Rightarrow>
             let sent_length = ret - 16 in
             if seq_number segment = sent_bytes_cnt s1
             then store_sent W segment sent_length
                    (s1\<lparr>sent_bytes_cnt := sent_bytes_cnt s1 + sent_length\<rparr>)
             else if seq_number segment > sent_bytes_cnt s1 then (Inl ValueError, s1)
             else store_sent W segment sent_length s1))"

subsection \<open>The receive path\<close>

text \<open>The loop of \<^verbatim>\<open>_shift_recv_window\<close> over the queue, the cursor and the buffer. The
  flag \<^verbatim>\<open>acknowledged\<close> that the code sets on a segment it has taken for good is not
  kept: the segment leaves the queue and nothing refers to it again.\<close>

fun shift_recv_loop ::
  "(int \<times> TCPSegment) list \<Rightarrow> int \<Rightarrow> bytes \<Rightarrow> (int \<times> TCPSegment) list \<times> int \<times> bytes" where
  "shift_recv_loop [] rc buf = ([], rc, buf)"
| "shift_recv_loop ((k, first_segment) # q) rc buf =
     (if seq_number first_segment < rc then shift_recv_loop q rc buf
      else if seq_number first_segment = rc
      then shift_recv_loop q (rc + int (seg_len first_segment)) (buf @ data first_segment)
      else (pq_put (seq_number first_segment, first_segment) q, rc, buf))"

text \<open>\<^verbatim>\<open>_shift_recv_window\<close>: \<^verbatim>\<open>first_segment\<close> is not \<^verbatim>\<open>None\<close> after the loop exactly
  when the queue was not empty before it, and then an empty segment carrying the
  acknowledgment is transmitted.\<close>

definition shift_recv_window :: "world \<Rightarrow> MyTCPProtocol \<Rightarrow> (error + unit) \<times> MyTCPProtocol" where
  "shift_recv_window W s =
     (case shift_recv_loop (recv_window s) (received_bytes_cnt s) (buffer s) of (q, rc, buf) \<Rightarrow>
        let s1 = s\<lparr>recv_window := q, received_bytes_cnt := rc, buffer := buf\<rparr> in
        if recv_window s \<noteq> [] then
          (case time_time W s1 of (now, s2) \<Rightarrow>
             (case send_segment W
                     (TCPSegment_init now (sent_bytes_cnt s2) (received_bytes_cnt s2) []) s2 of
                (Inl e, s3) \<Rightarrow> (Inl e, s3)
              | (Inr n, s3) \<Rightarrow> (Inr (), s3)))
        else (Inr (), s1))"

text \<open>The loop of \<^verbatim>\<open>_shift_send_window\<close>, for the cursor \<open>dc\<close>.\<close>

fun shift_send_loop :: "(int \<times> TCPSegment) list \<Rightarrow> int \<Rightarrow> (int \<times> TCPSegment) list" where
  "shift_send_loop [] dc = []"
| "shift_send_loop ((k, first_segment) # q) dc =
     (if seq_number first_segment \<ge> dc then pq_put (seq_number first_segment, first_segment) q
      else shift_send_loop q dc)"

definition shift_send_window :: "MyTCPProtocol \<Rightarrow> MyTCPProtocol" where
  "shift_send_window s = s\<lparr>send_window := shift_send_loop (send_window s) (delivered_bytes_cnt s)\<rparr>"

text \<open>\<^verbatim>\<open>_receive_segment(timeout)\<close>. The result is \<open>None\<close> when \<^verbatim>\<open>recvfrom\<close> never returns.\<close>

definition receive_segment ::
  "world \<Rightarrow> rat option \<Rightarrow> MyTCPProtocol \<Rightarrow> ((error + bool) \<times> MyTCPProtocol) option" where
  "receive_segment W timeout s =
     (case recvfrom (nat (max_data_sz + 16)) (s\<lparr>sock_timeout := timeout\<rparr>) of
        (Blocked, s1) \<Rightarrow> None
      | (Raised, s1) \<Rightarrow> Some (Inr False, s1)
      | (Received msg, s1) \<Rightarrow>
          (case time_time W s1 of (now, s2) \<Rightarrow>
             let segment = load now msg in
             (case (if data segment \<noteq> []
                    then shift_recv_window W
                           (s2\<lparr>recv_window := pq_put (seq_number segment, segment) (recv_window s2)\<rparr>)
                    else (Inr (), s2)) of
                (Inl e, s3) \<Rightarrow> Some (Inl e, s3)
              | (Inr u, s3) \<Rightarrow>
                  (if ack_number segment > delivered_bytes_cnt s3
                   then Some (Inr True,
                              shift_send_window (s3\<lparr>delivered_bytes_cnt := ack_number segment\<rparr>))
                   else Some (Inr True, s3)))))"

subsection \<open>Retransmission\<close>

definition resend_first_segment :: "world \<Rightarrow> MyTCPProtocol \<Rightarrow> (error + unit) \<times> MyTCPProtocol" where
  "resend_first_segment W s =
     (case send_window s of
        [] \<Rightarrow> (Inr (), s)
      | (k, first_segment) # q \<Rightarrow>
          (case expired W first_segment (s\<lparr>send_window := q\<rparr>) of
             (True, s1) \<Rightarrow>
               (case send_segment W first_segment s1 of
                  (Inl e, s2) \<Rightarrow> (Inl e, s2)
                | (Inr n, s2) \<Rightarrow> (Inr (), s2))
           | (False, s1) \<Rightarrow>
               (Inr (), s1\<lparr>send_window :=
                              pq_put (seq_number first_segment, first_segment) (send_window s1)\<rparr>)))"

subsection \<open>send\<close>

text \<open>One pass through the body of the loop of \<^verbatim>\<open>send\<close>, on the loop's variables
  \<^verbatim>\<open>data\<close>, \<^verbatim>\<open>sent_data_len\<close> and \<^verbatim>\<open>lag\<close>.\<close>

definition carve :: "bytes \<Rightarrow> MyTCPProtocol \<Rightarrow> bool" where
  "carve bs s = (sent_bytes_cnt s - delivered_bytes_cnt s \<le> window_sz \<and> bs \<noteq> [])"

definition send_branch ::
  "world \<Rightarrow> bytes \<Rightarrow> int \<Rightarrow> int \<Rightarrow> MyTCPProtocol \<Rightarrow>
     ((error + bytes \<times> int \<times> int) \<times> MyTCPProtocol) option" where
  "send_branch W bs sent_data_len lag s =
     (if carve bs s then
        (case time_time W s of (now, s1) \<Rightarrow>
           (case send_segment W
                   (TCPSegment_init now (sent_bytes_cnt s1) (received_bytes_cnt s1)
                      (py_take (min max_data_sz (int (length bs))) bs)) s1 of
              (Inl e, s2) \<Rightarrow> Some (Inl e, s2)
            | (Inr sent_length, s2) \<Rightarrow>
                Some (Inr (py_drop sent_length bs, sent_data_len + sent_length, lag), s2)))
      else
        (case receive_segment W (Some ACK_TIMEOUT) s of
           None \<Rightarrow> None
         | Some (Inl e, s1) \<Rightarrow> Some (Inl e, s1)
         | Some (Inr True, s1) \<Rightarrow> Some (Inr (bs, sent_data_len, 0), s1)
         | Some (Inr False, s1) \<Rightarrow> Some (Inr (bs, sent_data_len, lag + 1), s1)))"

definition send_body ::
  "world \<Rightarrow> bytes \<Rightarrow> int \<Rightarrow> int \<Rightarrow> MyTCPProtocol \<Rightarrow>
     ((error + bytes \<times> int \<times> int) \<times> MyTCPProtocol) option" where
  "send_body W bs sent_data_len lag s =
     (case send_branch W bs sent_data_len lag s of
        None \<Rightarrow> None
      | Some (Inl e, s1) \<Rightarrow> Some (Inl e, s1)
      | Some (Inr vars, s1) \<Rightarrow>
          (case resend_first_segment W s1 of
             (Inl e, s2) \<Rightarrow> Some (Inl e, s2)
           | (Inr u, s2) \<Rightarrow> Some (Inr vars, s2)))"

definition send_guard :: "bytes \<Rightarrow> int \<Rightarrow> MyTCPProtocol \<Rightarrow> bool" where
  "send_guard bs lag s =
     (lag < max_lag \<and> (bs \<noteq> [] \<or> delivered_bytes_cnt s < sent_bytes_cnt s))"

text \<open>The loop. It need not end: a transport that accepts the header alone, again and
  again, keeps it turning; the result \<open>None\<close> stands for a call that never returns.\<close>

partial_function (option) send_loop ::
  "world \<Rightarrow> bytes \<Rightarrow> int \<Rightarrow> int \<Rightarrow> MyTCPProtocol \<Rightarrow> ((error + int) \<times> MyTCPProtocol) option" where
  "send_loop W bs sent_data_len lag s =
     (if send_guard bs lag s then
        (case send_body W bs sent_data_len lag s of
           None \<Rightarrow> None
         | Some (Inl e, s1) \<Rightarrow> Some (Inl e, s1)
         | Some (Inr (bs1, n1, lag1), s1) \<Rightarrow> send_loop W bs1 n1 lag1 s1)
      else Some (Inr sent_data_len, s))"

definition send :: "world \<Rightarrow> bytes \<Rightarrow> MyTCPProtocol \<Rightarrow> ((error + int) \<times> MyTCPProtocol) option" where
  "send W bs s = send_loop W bs 0 0 s"

text \<open>The values of the loop's variables and the states at the head of the loop, in the
  call \<^verbatim>\<open>send(bs0)\<close> from the state \<open>s0\<close>: the start, and what a pass of the body that
  raises nothing leads to.\<close>

inductive send_reaches ::
  "world \<Rightarrow> bytes \<Rightarrow> MyTCPProtocol \<Rightarrow> bytes \<times> int \<times> int \<times> MyTCPProtocol \<Rightarrow> bool"
  for W :: world and bs0 :: bytes and s0 :: MyTCPProtocol where
  start: "send_reaches W bs0 s0 (bs0, 0, 0, s0)"
| pass: "send_reaches W bs0 s0 (bs, n, lag, s) \<Longrightarrow> send_guard bs lag s \<Longrightarrow>
         send_body W bs n lag s = Some (Inr (bs', n', lag'), s') \<Longrightarrow>
         send_reaches W bs0 s0 (bs', n', lag', s')"

code_pred send_reaches .

text \<open>A connection that has sent 10 bytes, of which 3 are acknowledged, and meets a
  datagram that acknowledges 7.\<close>

definition ack_start :: MyTCPProtocol where
  "ack_start = (init [Datagram [0, 0, 0, 0, 0, 0, 0, 0, 0, 0, 0, 0, 0, 0, 0, 7]])
     \<lparr>sent_bytes_cnt := 10, delivered_bytes_cnt := 3\<rparr>"

text \<open>A connection with 5000 bytes in flight that meets one timeout and then the
  acknowledgment of all 5000, and its states after the first, second and third pass
  of the loop of \<^verbatim>\<open>send(b"\x01")\<close>.\<close>

definition lag_start :: MyTCPProtocol where
  "lag_start = (init [SocketError, Datagram [0, 0, 0, 0, 0, 0, 0, 0, 0, 0, 0, 0, 0, 0, 19, 136]])
     \<lparr>sent_bytes_cnt := 5000\<rparr>"

definition lag_waited :: MyTCPProtocol where
  "lag_waited = lag_start
     \<lparr>sock_timeout := Some ACK_TIMEOUT, recv_errors := 1,
      inbox := [Datagram [0, 0, 0, 0, 0, 0, 0, 0, 0, 0, 0, 0, 0, 0, 19, 136]]\<rparr>"

definition lag_opened :: MyTCPProtocol where
  "lag_opened = lag_waited\<lparr>inbox := [], delivered_bytes_cnt := 5000, clock_reads := 1\<rparr>"

definition lag_carved :: MyTCPProtocol where
  "lag_carved = lag_opened
     \<lparr>sent_bytes_cnt := 5001, clock_reads := 4,
      send_window := [(5000, TCPSegment_init 0 5000 0 [1])],
      outbox := [[0, 0, 0, 0, 0, 0, 19, 136, 0, 0, 0, 0, 0, 0, 0, 0, 1]]\<rparr>"

lemmas lag_defs = lag_start_def lag_waited_def lag_opened_def lag_carved_def

subsection \<open>recv\<close>

text \<open>The part of the loop of \<^verbatim>\<open>recv\<close> before the call of \<^verbatim>\<open>_receive_segment\<close>: the
  bytes collected so far and the state, after the buffer was drained.\<close>

definition recv_drain :: "int \<Rightarrow> bytes \<Rightarrow> MyTCPProtocol \<Rightarrow> bytes \<times> MyTCPProtocol" where
  "recv_drain data_sz acc s =
     (let right_border = min data_sz (int (length (buffer s))) in
      (acc @ py_take right_border (buffer s),
       s\<lparr>buffer := py_drop right_border (buffer s)\<rparr>))"

subsection \<open>A transport that takes whole datagrams\<close>

text \<open>A UDP socket sends a datagram whole or not at all: \<^verbatim>\<open>sendto\<close> returns the length of
  what it was given. \<open>udp clk\<close> is that transport under the clock \<open>clk\<close>.\<close>

definition whole_datagrams :: "world \<Rightarrow> bool" where
  "whole_datagrams W = (\<forall>i d. sendto_ret W i d = int (length d))"

text \<open>The weaker demand: \<^verbatim>\<open>sendto\<close> reports at least the 16 bytes of the header (every
  datagram of the protocol has them).\<close>

definition min_header :: "world \<Rightarrow> bool" where
  "min_header W = (\<forall>i d. 16 \<le> length d \<longrightarrow> 16 \<le> sendto_ret W i d)"

definition udp :: "(nat \<Rightarrow> rat) \<Rightarrow> world" where
  "udp clk = \<lparr>sendto_ret = (\<lambda>i d. int (length d)), clock = clk\<rparr>"

subsection \<open>The peer's byte stream\<close>

text \<open>A segment is a slice of the stream \<open>str\<close> when its payload is what \<open>str\<close> holds from
  the offset its sequence number names; a window is of the stream when all its segments
  are.\<close>

definition slice_of :: "bytes \<Rightarrow> TCPSegment \<Rightarrow> bool" where
  "slice_of str segment =
     (0 \<le> seq_number segment
      \<and> data segment = take (length (data segment)) (drop (nat (seq_number segment)) str)
      \<and> nat (seq_number segment) + length (data segment) \<le> length str)"

definition window_of :: "bytes \<Rightarrow> (int \<times> TCPSegment) list \<Rightarrow> bool" where
  "window_of str q = (\<forall>e \<in> set q. slice_of str (snd e))"

text \<open>A stream of 30 bytes, each byte its own offset, the datagram that carries its bytes
  \<open>[20, 30)\<close>, the datagram that carries \<open>[10, 20)\<close>, and a connection that has received
  the first 10 bytes and will meet the two datagrams, the later one first.\<close>

definition gap_stream :: bytes where
  "gap_stream = [0, 1, 2, 3, 4, 5, 6, 7, 8, 9, 10, 11, 12, 13, 14, 15, 16, 17, 18, 19,
                 20, 21, 22, 23, 24, 25, 26, 27, 28, 29]"

definition gap_late :: bytes where
  "gap_late = [0, 0, 0, 0, 0, 0, 0, 20, 0, 0, 0, 0, 0, 0, 0, 0,
               20, 21, 22, 23, 24, 25, 26, 27, 28, 29]"

definition gap_early :: bytes where
  "gap_early = [0, 0, 0, 0, 0, 0, 0, 10, 0, 0, 0, 0, 0, 0, 0, 0,
                10, 11, 12, 13, 14, 15, 16, 17, 18, 19]"

definition gap_start :: MyTCPProtocol where
  "gap_start = (init [Datagram gap_late, Datagram gap_early])\<lparr>received_bytes_cnt := 10\<rparr>"

definition gap_held :: MyTCPProtocol where
  "gap_held = (init [Datagram gap_early])
     \<lparr>received_bytes_cnt := 10,
      recv_window := [(20, TCPSegment_init 0 20 0 [20, 21, 22, 23, 24, 25, 26, 27, 28, 29])],
      outbox := [[0, 0, 0, 0, 0, 0, 0, 0, 0, 0, 0, 0, 0, 0, 0, 10]], clock_reads := 2\<rparr>"

definition gap_filled :: MyTCPProtocol where
  "gap_filled = (init [])
     \<lparr>received_bytes_cnt := 30,
      buffer := [10, 11, 12, 13, 14, 15, 16, 17, 18, 19, 20, 21, 22, 23, 24, 25, 26, 27, 28, 29],
      outbox := [[0, 0, 0, 0, 0, 0, 0, 0, 0, 0, 0, 0, 0, 0, 0, 10],
                 [0, 0, 0, 0, 0, 0, 0, 0, 0, 0, 0, 0, 0, 0, 0, 30]], clock_reads := 4\<rparr>"

subsection \<open>Predicates on the send side\<close>

text \<open>The segments in flight lie below the send cursor; the bytes in flight; a segment
  whose two numbers fit the wire format; and a window that holds no segment another
  does not hold.\<close>

definition window_below :: "MyTCPProtocol \<Rightarrow> bool" where
  "window_below s = (\<forall>e \<in> set (send_window s). seq_number (snd e) < sent_bytes_cnt s)"

definition in_flight :: "MyTCPProtocol \<Rightarrow> int" where
  "in_flight s = sent_bytes_cnt s - delivered_bytes_cnt s"

definition wire_range :: "TCPSegment \<Rightarrow> bool" where
  "wire_range segment =
     (0 \<le> seq_number segment \<and> seq_number segment < 2 ^ 64
      \<and> 0 \<le> ack_number segment \<and> ack_number segment < 2 ^ 64)"

definition sub_window :: "(int \<times> TCPSegment) list \<Rightarrow> (int \<times> TCPSegment) list \<Rightarrow> bool" where
  "sub_window q' q = (snd ` set q' \<subseteq> snd ` set q)"

text \<open>Every segment in flight fits the wire format.\<close>

definition window_ready :: "MyTCPProtocol \<Rightarrow> bool" where
  "window_ready s = (\<forall>e \<in> set (send_window s). wire_range (snd e))"










text \<open>What decreases with every pass of the loop of \<^verbatim>\<open>send\<close> on a transport that takes
  whole datagrams.\<close>

definition loop_measure :: "bytes \<Rightarrow> int \<Rightarrow> MyTCPProtocol \<Rightarrow> nat" where
  "loop_measure bs lag s = (length bs + length (inbox s)) * 65 + nat (max_lag - lag)"

subsection \<open>Codec lemmas\<close>

lemma from_bytes_big_snoc: "from_bytes_big (bs @ [b]) = from_bytes_big bs * 256 + uint b"
  by (simp add: from_bytes_big_def)

lemma length_big_endian: "length (big_endian k n) = k"
  by (induction k arbitrary: n) auto

lemma uint_byte_of_mod: "uint (word_of_int (n mod 256) :: byte) = n mod 256"
  by (simp add: uint_word_of_int)

lemma from_bytes_big_endian:
  "0 \<le> n \<Longrightarrow> n < 256 ^ k \<Longrightarrow> from_bytes_big (big_endian k n) = n"
proof (induction k arbitrary: n)
  case 0
  then show ?case by (simp add: from_bytes_big_def)
next
  case (Suc k)
  have "0 \<le> n div 256" using Suc.prems(1) by simp
  moreover have "n div 256 < 256 ^ k" using Suc.prems(2) by simp
  ultimately have "from_bytes_big (big_endian k (n div 256)) = n div 256"
    by (rule Suc.IH)
  then show ?case
    by (simp add: from_bytes_big_snoc uint_byte_of_mod)
qed

lemma to_bytes8_ok: "0 \<le> n \<Longrightarrow> n < 2 ^ 64 \<Longrightarrow> to_bytes8 n = Inr (big_endian 8 n)"
  by (simp add: to_bytes8_def)

lemma from_bytes_big_endian8: "0 \<le> n \<Longrightarrow> n < 2 ^ 64 \<Longrightarrow> from_bytes_big (big_endian 8 n) = n"
  using from_bytes_big_endian [of n 8] by simp

lemma load_wire:
  assumes "length sq = 8" "length ak = 8"
  shows "load now (sq @ ak @ bs) = TCPSegment_init now (from_bytes_big sq) (from_bytes_big ak) bs"
  using assms by (simp add: load_def)



text \<open>
  Claim C8. For every segment whose sequence number and acknowledgment number lie in
  \<open>[0, 2^64)\<close> and whose payload has at most 1024 bytes, \<^verbatim>\<open>dump\<close> returns a datagram
  (the 16-byte header, then the payload) and \<^verbatim>\<open>load\<close> of that datagram has the same
  sequence number, acknowledgment number and payload; it is equal to the segment under
  \<^verbatim>\<open>__eq__\<close> as well.
\<close>

theorem dump_load_roundtrip:
  assumes "0 \<le> seq_number segment" "seq_number segment < 2 ^ 64"
    and "0 \<le> ack_number segment" "ack_number segment < 2 ^ 64"
    and "length (data segment) \<le> 1024"
  shows "\<exists>wire. dump segment = Inr wire \<and> length wire = 16 + length (data segment)
           \<and> seq_number (load now wire) = seq_number segment
           \<and> ack_number (load now wire) = ack_number segment
           \<and> data (load now wire) = data segment
           \<and> seg_eq (load now wire) segment"
  using assms
  by (simp add: dump_def to_bytes8_ok load_wire length_big_endian from_bytes_big_endian8
      TCPSegment_init_def seg_eq_def del: big_endian.simps)

theorem dump_load_roundtrip_witness:
  "(0::int) \<le> seq_number (TCPSegment_init 3 258 7 [1, 2])
   \<and> seq_number (TCPSegment_init 3 258 7 [1, 2]) < 2 ^ 64
   \<and> (0::int) \<le> ack_number (TCPSegment_init 3 258 7 [1, 2])
   \<and> ack_number (TCPSegment_init 3 258 7 [1, 2]) < 2 ^ 64
   \<and> length (data (TCPSegment_init 3 258 7 [1, 2])) \<le> 1024
   \<and> (\<exists>wire. dump (TCPSegment_init 3 258 7 [1, 2]) = Inr wire \<and> length wire = 18
         \<and> seq_number (load 5 wire) = 258 \<and> ack_number (load 5 wire) = 7
         \<and> data (load 5 wire) = [1, 2]
         \<and> seg_eq (load 5 wire) (TCPSegment_init 3 258 7 [1, 2]))"
  using dump_load_roundtrip [of "TCPSegment_init 3 258 7 [1, 2]" 5]
  by (simp add: TCPSegment_init_def)




subsection \<open>Running the model on concrete inputs\<close>

lemma big_endian_numeral:
  "big_endian (numeral k) n = big_endian (pred_numeral k) (n div 256) @ [word_of_int (n mod 256)]"
  by (simp add: numeral_eq_Suc)

lemma dump_length: "dump segment = Inr wire \<Longrightarrow> length wire = 16 + length (data segment)"
  by (auto simp: dump_def to_bytes8_def length_big_endian simp del: big_endian.simps
      split: sum.splits if_splits)

lemmas run_simps =
  init_def udp_def time_time_def sendto_def recvfrom_def expired_def ACK_TIMEOUT_def
  TCPSegment_init_def load_def dump_def to_bytes8_def from_bytes_big_def seg_len_def
  pq_put_def py_take_def py_drop_def max_data_sz_def window_sz_def max_lag_def
  store_sent_def send_segment_def shift_recv_window_def shift_send_window_def
  receive_segment_def resend_first_segment_def carve_def send_branch_def send_body_def
  send_guard_def recv_drain_def Let_def big_endian_numeral

lemma min_header_udp: "min_header (udp clk)"
  by (simp add: min_header_def udp_def)


lemma whole_datagrams_min_header: "whole_datagrams W \<Longrightarrow> min_header W"
  by (simp add: whole_datagrams_def min_header_def)

subsection \<open>What one transmission and one reception leave untouched\<close>

lemma send_segment_rx_frame:
  "send_segment W segment s = (r, s') \<Longrightarrow>
     delivered_bytes_cnt s' = delivered_bytes_cnt s \<and> received_bytes_cnt s' = received_bytes_cnt s
     \<and> recv_window s' = recv_window s \<and> buffer s' = buffer s \<and> inbox s' = inbox s
     \<and> recv_errors s' = recv_errors s \<and> sock_timeout s' = sock_timeout s"
  by (auto simp: send_segment_def store_sent_def sendto_def time_time_def Let_def
      split: sum.splits prod.splits if_splits)

lemma send_segment_sent_mono:
  "send_segment W segment s = (r, s') \<Longrightarrow> min_header W \<Longrightarrow> sent_bytes_cnt s \<le> sent_bytes_cnt s'"
  by (auto simp: send_segment_def store_sent_def sendto_def time_time_def Let_def min_header_def
      split: sum.splits prod.splits if_splits dest!: dump_length)

lemma shift_recv_window_tx_frame:
  "shift_recv_window W s = (r, s') \<Longrightarrow>
     delivered_bytes_cnt s' = delivered_bytes_cnt s \<and> inbox s' = inbox s
     \<and> recv_errors s' = recv_errors s \<and> sock_timeout s' = sock_timeout s"
  by (auto simp: shift_recv_window_def time_time_def Let_def
      split: sum.splits prod.splits if_splits dest!: send_segment_rx_frame)

lemma shift_recv_window_sent_mono:
  "shift_recv_window W s = (r, s') \<Longrightarrow> min_header W \<Longrightarrow> sent_bytes_cnt s \<le> sent_bytes_cnt s'"
  by (auto simp: shift_recv_window_def time_time_def Let_def
      split: sum.splits prod.splits if_splits dest!: send_segment_sent_mono)

lemma shift_recv_window_both:
  "shift_recv_window W s = (r, s') \<Longrightarrow> min_header W \<Longrightarrow>
     sent_bytes_cnt s \<le> sent_bytes_cnt s'
     \<and> delivered_bytes_cnt s' = delivered_bytes_cnt s \<and> inbox s' = inbox s"
  using shift_recv_window_tx_frame shift_recv_window_sent_mono by blast

lemma ack_take:
  "ack_number (load now (take (nat (max_data_sz + 16)) msg)) = ack_number (load t msg)"
  by (simp add: load_def TCPSegment_init_def max_data_sz_def take_drop)

lemma receive_segment_inbox:
  "receive_segment W timeout s = Some (r, s') \<Longrightarrow>
     inbox s' = tl (inbox s) \<and> (timeout = None \<longrightarrow> inbox s \<noteq> [])"
  by (auto simp: receive_segment_def recvfrom_def time_time_def Let_def shift_send_window_def
      split: sum.splits prod.splits if_splits list.splits rx_event.splits
      dest!: shift_recv_window_tx_frame)

subsection \<open>The loop of recv\<close>

text \<open>
  The loop of \<^verbatim>\<open>recv\<close>, on its variable \<^verbatim>\<open>data\<close> (here \<open>acc\<close>). Every pass that does not
  leave the loop takes one event from the endpoint, so the loop ends or meets an
  endpoint with no event left, where \<^verbatim>\<open>recvfrom\<close> never returns: the result \<open>None\<close>.
\<close>

function recv_loop ::
  "world \<Rightarrow> int \<Rightarrow> bytes \<Rightarrow> MyTCPProtocol \<Rightarrow> ((error + bytes) \<times> MyTCPProtocol) option" where
  "recv_loop W data_sz acc s =
     (if int (length acc) < data_sz then
        (case recv_drain data_sz acc s of (acc1, s1) \<Rightarrow>
           if int (length acc1) < data_sz then
             (case receive_segment W None s1 of
                None \<Rightarrow> None
              | Some (Inl e, s2) \<Rightarrow> Some (Inl e, s2)
              | Some (Inr b, s2) \<Rightarrow> recv_loop W data_sz acc1 s2)
           else recv_loop W data_sz acc1 s1)
      else Some (Inr acc, s))"
  by pat_completeness auto
termination
  apply (relation "measure (\<lambda>(W, data_sz, acc, s).
          2 * length (inbox s) + (if int (length acc) < data_sz then 1 else 0))")
    apply simp
   apply (auto dest!: receive_segment_inbox simp: recv_drain_def Let_def neq_Nil_conv)
  done

declare recv_loop.simps [simp del]

definition recv :: "world \<Rightarrow> int \<Rightarrow> MyTCPProtocol \<Rightarrow> ((error + bytes) \<times> MyTCPProtocol) option" where
  "recv W data_sz s = recv_loop W data_sz [] s"

text \<open>
  Claim C1 does not hold of the code. Each pass of the loop takes up to \<^verbatim>\<open>data_sz\<close> bytes
  from the buffer, whatever \<^verbatim>\<open>data\<close> holds already, so a call that needs more than one
  pass can return more than it was asked for. On a fresh connection \<^verbatim>\<open>recv(5)\<close> meets a
  segment of 3 bytes, then the next one of 10 bytes, and returns 8 bytes.
\<close>

theorem recv_returns_more_than_asked:
  "recv (udp (\<lambda>i. 0)) 5
     (init [Datagram [0, 0, 0, 0, 0, 0, 0, 0, 0, 0, 0, 0, 0, 0, 0, 0, 1, 2, 3],
            Datagram [0, 0, 0, 0, 0, 0, 0, 3, 0, 0, 0, 0, 0, 0, 0, 0,
                      4, 5, 6, 7, 8, 9, 10, 11, 12, 13]])
   = Some (Inr [1, 2, 3, 4, 5, 6, 7, 8],
       (init [])\<lparr>received_bytes_cnt := 13, buffer := [9, 10, 11, 12, 13], clock_reads := 4,
          outbox := [[0, 0, 0, 0, 0, 0, 0, 0, 0, 0, 0, 0, 0, 0, 0, 3],
                     [0, 0, 0, 0, 0, 0, 0, 0, 0, 0, 0, 0, 0, 0, 0, 13]]\<rparr>)"
  by (simp add: recv_def recv_loop.simps run_simps)

subsection \<open>The order of the two send cursors\<close>

text \<open>
  Claim C3, as the code has it. \<^verbatim>\<open>_delivered_bytes_cnt \<le> _sent_bytes_cnt\<close> is kept by
  \<^verbatim>\<open>_send_segment\<close>, and by \<^verbatim>\<open>_receive_segment\<close> when the datagram it processes
  acknowledges no more than was sent (its acknowledgment number is at most
  \<^verbatim>\<open>_sent_bytes_cnt\<close>), on a transport that reports at least the 16 header bytes of
  every datagram. The code compares the acknowledgment number with
  \<^verbatim>\<open>_delivered_bytes_cnt\<close> only, never with \<^verbatim>\<open>_sent_bytes_cnt\<close>: whenever
  \<^verbatim>\<open>_receive_segment\<close> has processed a datagram and returned, \<^verbatim>\<open>_delivered_bytes_cnt\<close> is
  the larger of its old value and the datagram's acknowledgment number, whatever
  \<^verbatim>\<open>_sent_bytes_cnt\<close> is.
\<close>

theorem cursor_order_steps:
  "(delivered_bytes_cnt s \<le> sent_bytes_cnt s \<and> min_header W \<longrightarrow>
      (send_segment W segment s = (r, s') \<longrightarrow> delivered_bytes_cnt s' \<le> sent_bytes_cnt s')
      \<and> (receive_segment W timeout s = Some (b, s'')
           \<and> (\<forall>msg evs. inbox s = Datagram msg # evs \<longrightarrow> ack_number (load 0 msg) \<le> sent_bytes_cnt s)
          \<longrightarrow> delivered_bytes_cnt s'' \<le> sent_bytes_cnt s''))
   \<and> (receive_segment W timeout s = Some (Inr u, s'') \<and> inbox s = Datagram msg # evs
        \<longrightarrow> delivered_bytes_cnt s'' = max (delivered_bytes_cnt s) (ack_number (load 0 msg)))"
proof (intro conjI impI)
  assume h: "delivered_bytes_cnt s \<le> sent_bytes_cnt s \<and> min_header W"
    and "send_segment W segment s = (r, s')"
  from send_segment_rx_frame [OF this(2)] send_segment_sent_mono [OF this(2)] h
  show "delivered_bytes_cnt s' \<le> sent_bytes_cnt s'" by simp
next
  assume h: "delivered_bytes_cnt s \<le> sent_bytes_cnt s \<and> min_header W"
    and a: "receive_segment W timeout s = Some (b, s'')
         \<and> (\<forall>msg evs. inbox s = Datagram msg # evs \<longrightarrow> ack_number (load 0 msg) \<le> sent_bytes_cnt s)"
  show "delivered_bytes_cnt s'' \<le> sent_bytes_cnt s''"
    using a h
    by (auto simp: receive_segment_def recvfrom_def time_time_def Let_def shift_send_window_def
      ack_take [of _ _ 0]
      split: sum.splits prod.splits if_splits list.splits rx_event.splits
      dest!: shift_recv_window_both)
next
  assume "receive_segment W timeout s = Some (Inr u, s'') \<and> inbox s = Datagram msg # evs"
  then show "delivered_bytes_cnt s'' = max (delivered_bytes_cnt s) (ack_number (load 0 msg))"
    by (auto simp: receive_segment_def recvfrom_def time_time_def Let_def shift_send_window_def
      ack_take [of _ _ 0]
      split: sum.splits prod.splits if_splits
      dest!: shift_recv_window_tx_frame)
qed

theorem cursor_order_steps_witness:
  "delivered_bytes_cnt ack_start < ack_number (load 0 [0, 0, 0, 0, 0, 0, 0, 0, 0, 0, 0, 0, 0, 0, 0, 7])
   \<and> ack_number (load 0 [0, 0, 0, 0, 0, 0, 0, 0, 0, 0, 0, 0, 0, 0, 0, 7]) \<le> sent_bytes_cnt ack_start
   \<and> delivered_bytes_cnt ack_start \<le> sent_bytes_cnt ack_start
   \<and> min_header (udp (\<lambda>i. 0))
   \<and> inbox ack_start = [Datagram [0, 0, 0, 0, 0, 0, 0, 0, 0, 0, 0, 0, 0, 0, 0, 7]]
   \<and> receive_segment (udp (\<lambda>i. 0)) None ack_start
      = Some (Inr True, (init [])\<lparr>sent_bytes_cnt := 10, delivered_bytes_cnt := 7, clock_reads := 1\<rparr>)
   \<and> delivered_bytes_cnt ((init [])\<lparr>sent_bytes_cnt := 10, delivered_bytes_cnt := 7, clock_reads := 1\<rparr>)
       = max (delivered_bytes_cnt ack_start)
             (ack_number (load 0 [0, 0, 0, 0, 0, 0, 0, 0, 0, 0, 0, 0, 0, 0, 0, 7]))
   \<and> delivered_bytes_cnt ((init [])\<lparr>sent_bytes_cnt := 10, delivered_bytes_cnt := 7, clock_reads := 1\<rparr>)
       \<le> sent_bytes_cnt ((init [])\<lparr>sent_bytes_cnt := 10, delivered_bytes_cnt := 7, clock_reads := 1\<rparr>)
   \<and> send_segment (udp (\<lambda>i. 0)) (TCPSegment_init 0 10 0 [1]) ack_start
      = (Inr 1, ack_start\<lparr>sent_bytes_cnt := 11, send_window := [(10, TCPSegment_init 0 10 0 [1])],
            outbox := [[0, 0, 0, 0, 0, 0, 0, 10, 0, 0, 0, 0, 0, 0, 0, 0, 1]], clock_reads := 1\<rparr>)
   \<and> delivered_bytes_cnt (ack_start\<lparr>sent_bytes_cnt := 11\<rparr>) \<le> sent_bytes_cnt (ack_start\<lparr>sent_bytes_cnt := 11\<rparr>)"
  using cursor_order_steps [of ack_start "udp (\<lambda>i. 0)" "TCPSegment_init 0 10 0 [1]" "Inr 1"
      "ack_start\<lparr>sent_bytes_cnt := 11, send_window := [(10, TCPSegment_init 0 10 0 [1])],
            outbox := [[0, 0, 0, 0, 0, 0, 0, 10, 0, 0, 0, 0, 0, 0, 0, 0, 1]], clock_reads := 1\<rparr>"
      None "Inr True"
      "(init [])\<lparr>sent_bytes_cnt := 10, delivered_bytes_cnt := 7, clock_reads := 1\<rparr>"
      True "[0, 0, 0, 0, 0, 0, 0, 0, 0, 0, 0, 0, 0, 0, 0, 7]" "[]"]
  by (simp add: ack_start_def min_header_def run_simps)

text \<open>The claim as the specification words it fails on the first datagram of a fresh
  connection when that datagram acknowledges 5 bytes: nothing was sent, and
  \<^verbatim>\<open>_delivered_bytes_cnt\<close> becomes 5.\<close>

theorem cursor_order_counterexample:
  "receive_segment (udp (\<lambda>i. 0)) None
     (init [Datagram [0, 0, 0, 0, 0, 0, 0, 0, 0, 0, 0, 0, 0, 0, 0, 5]])
   = Some (Inr True, (init [])\<lparr>delivered_bytes_cnt := 5, clock_reads := 1\<rparr>)
   \<and> sent_bytes_cnt ((init [])\<lparr>delivered_bytes_cnt := 5, clock_reads := 1\<rparr>)
       < delivered_bytes_cnt ((init [])\<lparr>delivered_bytes_cnt := 5, clock_reads := 1\<rparr>)"
  by (simp add: run_simps)

subsection \<open>The transmit path and the cursor\<close>

text \<open>
  Claim C9. For every segment passed to \<^verbatim>\<open>_send_segment\<close> (its two numbers in
  \<open>[0, 2^64)\<close>, as the wire format has them): when its sequence number is greater than
  \<^verbatim>\<open>_sent_bytes_cnt\<close> the call raises \<^verbatim>\<open>ValueError\<close>, and the state it leaves is the state
  before the call but for the datagram, which was handed to the transport first: no
  cursor, window or buffer has moved. When its sequence number is at most
  \<^verbatim>\<open>_sent_bytes_cnt\<close> the call does not raise \<^verbatim>\<open>ValueError\<close>.
\<close>

theorem send_segment_ahead_raises:
  "(sent_bytes_cnt s < seq_number segment \<and> 0 \<le> seq_number segment \<and> seq_number segment < 2 ^ 64
      \<and> 0 \<le> ack_number segment \<and> ack_number segment < 2 ^ 64
    \<longrightarrow> (\<exists>wire. dump segment = Inr wire
          \<and> send_segment W segment s = (Inl ValueError, s\<lparr>outbox := outbox s @ [wire]\<rparr>)))
   \<and> (seq_number segment \<le> sent_bytes_cnt s \<longrightarrow> fst (send_segment W segment s) \<noteq> Inl ValueError)"
  by (auto simp: send_segment_def store_sent_def dump_def to_bytes8_def sendto_def time_time_def Let_def
      simp del: big_endian.simps split: sum.splits prod.splits)

theorem send_segment_ahead_raises_witness:
  "sent_bytes_cnt (init []) < seq_number (TCPSegment_init 0 5 0 [1])
   \<and> 0 \<le> seq_number (TCPSegment_init 0 5 0 [1]) \<and> seq_number (TCPSegment_init 0 5 0 [1]) < 2 ^ 64
   \<and> 0 \<le> ack_number (TCPSegment_init 0 5 0 [1]) \<and> ack_number (TCPSegment_init 0 5 0 [1]) < 2 ^ 64
   \<and> dump (TCPSegment_init 0 5 0 [1]) = Inr [0, 0, 0, 0, 0, 0, 0, 5, 0, 0, 0, 0, 0, 0, 0, 0, 1]
   \<and> send_segment (udp (\<lambda>i. 0)) (TCPSegment_init 0 5 0 [1]) (init [])
       = (Inl ValueError, (init [])\<lparr>outbox := [[0, 0, 0, 0, 0, 0, 0, 5, 0, 0, 0, 0, 0, 0, 0, 0, 1]]\<rparr>)
   \<and> seq_number (TCPSegment_init 0 0 0 [1]) \<le> sent_bytes_cnt (init [])
   \<and> fst (send_segment (udp (\<lambda>i. 0)) (TCPSegment_init 0 0 0 [1]) (init [])) = Inr 1"
  using send_segment_ahead_raises [of "init []" "TCPSegment_init 0 5 0 [1]" "udp (\<lambda>i. 0)"]
    send_segment_ahead_raises [of "init []" "TCPSegment_init 0 0 0 [1]" "udp (\<lambda>i. 0)"]
  by (simp add: run_simps)

subsection \<open>send with nothing to do\<close>

text \<open>
  Claim C10. In every state with \<^verbatim>\<open>_delivered_bytes_cnt\<close> at least \<^verbatim>\<open>_sent_bytes_cnt\<close>,
  \<^verbatim>\<open>send(b"")\<close> returns 0 and leaves the whole state as it was: the three cursors, both
  windows and the buffer, and the endpoint too (nothing was transmitted, nothing was
  received, the clock was not read).
\<close>

theorem send_nothing_pending:
  "sent_bytes_cnt s \<le> delivered_bytes_cnt s \<Longrightarrow> send W [] s = Some (Inr 0, s)"
  by (simp add: send_def send_loop.simps send_guard_def)

theorem send_nothing_pending_witness:
  "sent_bytes_cnt (init []) \<le> delivered_bytes_cnt (init [])
   \<and> send (udp (\<lambda>i. 0)) [] (init []) = Some (Inr 0, init [])"
  using send_nothing_pending [of "init []" "udp (\<lambda>i. 0)"] by (simp add: init_def)

subsection \<open>Release in order\<close>

lemma set_pq_put: "set (pq_put x q) = insert x (set q)"
  by (simp add: pq_put_def set_insort_key)

lemma slice_step:
  assumes "slice_of str segment" and "seq_number segment = rc" and "rc \<le> rc'"
    and "rc + int (length (data segment)) \<le> rc'"
  shows "data segment @ take (nat (rc' - (rc + int (length (data segment)))))
                          (drop (nat (rc + int (length (data segment)))) str)
         = take (nat (rc' - rc)) (drop (nat rc) str)"
proof -
  let ?n = "length (data segment)"
  have d: "data segment = take ?n (drop (nat rc) str)" and rc0: "0 \<le> rc"
    using assms(1,2) by (simp_all add: slice_of_def)
  have "nat (rc' - rc) = ?n + nat (rc' - (rc + int ?n))" using assms(4) by simp
  moreover have "nat (rc + int ?n) = nat rc + ?n" using rc0 by (simp add: nat_add_distrib)
  ultimately have "take (nat (rc' - rc)) (drop (nat rc) str)
      = take ?n (drop (nat rc) str) @ take (nat (rc' - (rc + int ?n))) (drop (nat (rc + int ?n)) str)"
    by (simp add: take_add add.commute)
  with d show ?thesis by simp
qed

lemma shift_recv_loop_in_order:
  "window_of str q \<Longrightarrow> shift_recv_loop q rc buf = (q', rc', buf') \<Longrightarrow>
     rc \<le> rc' \<and> buf' = buf @ take (nat (rc' - rc)) (drop (nat rc) str) \<and> window_of str q'
     \<and> ((\<forall>e \<in> set q. rc < seq_number (snd e)) \<longrightarrow> rc' = rc)"
proof (induction q rc buf arbitrary: q' rc' buf' rule: shift_recv_loop.induct)
  case (1 rc buf)
  then show ?case by (simp add: window_of_def)
next
  case (2 k first_segment q rc buf)
  have w: "window_of str q" and sl: "slice_of str first_segment"
    using "2.prems"(1) by (simp_all add: window_of_def)
  show ?case
  proof (cases "seq_number first_segment < rc")
    case True
    with "2.prems"(2) have "shift_recv_loop q rc buf = (q', rc', buf')" by simp
    from "2.IH"(1) [OF True w this] True show ?thesis by auto
  next
    case False
    show ?thesis
    proof (cases "seq_number first_segment = rc")
      case True
      with "2.prems"(2) have e: "shift_recv_loop q (rc + int (seg_len first_segment))
            (buf @ data first_segment) = (q', rc', buf')" by simp
      from "2.IH"(2) [OF False True w e]
      have ih: "rc + int (seg_len first_segment) \<le> rc'"
        "buf' = (buf @ data first_segment) @ take (nat (rc' - (rc + int (seg_len first_segment))))
                  (drop (nat (rc + int (seg_len first_segment))) str)"
        "window_of str q'" by simp_all
      have "rc \<le> rc'" using ih(1) by simp
      from slice_step [OF sl True this] ih(1,2)
      have "buf' = buf @ take (nat (rc' - rc)) (drop (nat rc) str)"
        by (simp add: seg_len_def)
      with \<open>rc \<le> rc'\<close> ih(3) True show ?thesis by auto
    next
      case neq: False
      with False "2.prems"(2) have "q' = pq_put (seq_number first_segment, first_segment) q"
        "rc' = rc" "buf' = buf" by simp_all
      with w sl show ?thesis by (simp add: window_of_def set_pq_put)
    qed
  qed
qed


lemma shift_recv_window_in_order:
  assumes "window_of str (recv_window s)" and "shift_recv_window W s = (r, s')"
  shows "received_bytes_cnt s \<le> received_bytes_cnt s'
     \<and> buffer s' = buffer s @ take (nat (received_bytes_cnt s' - received_bytes_cnt s))
                                (drop (nat (received_bytes_cnt s)) str)
     \<and> window_of str (recv_window s')
     \<and> ((\<forall>e \<in> set (recv_window s). received_bytes_cnt s < seq_number (snd e))
          \<longrightarrow> received_bytes_cnt s' = received_bytes_cnt s)"
proof -
  obtain q rc buf where l: "shift_recv_loop (recv_window s) (received_bytes_cnt s) (buffer s) = (q, rc, buf)"
    by (cases "shift_recv_loop (recv_window s) (received_bytes_cnt s) (buffer s)") auto
  have "received_bytes_cnt s' = rc \<and> buffer s' = buf \<and> recv_window s' = q"
    using assms(2) l
    by (auto simp: shift_recv_window_def time_time_def Let_def
        split: sum.splits prod.splits if_splits dest!: send_segment_rx_frame)
  with shift_recv_loop_in_order [OF assms(1) l] show ?thesis by simp
qed

lemma slice_of_load: "slice_of str (load now bs) = slice_of str (load 0 bs)"
  by (simp add: slice_of_def load_def TCPSegment_init_def)

text \<open>
  Claim C7. Whatever the order in which segments of the peer's stream arrive,
  \<^verbatim>\<open>_receive_segment\<close> appends to the buffer exactly the bytes of the stream from the old
  \<^verbatim>\<open>_received_bytes_cnt\<close> to the new one, in the order of the stream: a byte at offset
  \<open>k\<close> enters the buffer only when every byte below \<open>k\<close> has entered it. The window
  stays a window of the stream, so this holds of every later arrival too. When all the
  segments at hand, the one arriving with them, start beyond \<^verbatim>\<open>_received_bytes_cnt\<close>
  (a gap), nothing is appended.
\<close>

theorem no_out_of_order_release:
  assumes "window_of str (recv_window s)"
    and "\<forall>msg evs. inbox s = Datagram msg # evs \<longrightarrow> slice_of str (load 0 (take 1040 msg))"
    and "receive_segment W timeout s = Some (r, s')"
  shows "received_bytes_cnt s \<le> received_bytes_cnt s'
     \<and> buffer s' = buffer s @ take (nat (received_bytes_cnt s' - received_bytes_cnt s))
                                (drop (nat (received_bytes_cnt s)) str)
     \<and> window_of str (recv_window s')
     \<and> ((\<forall>e \<in> set (recv_window s). received_bytes_cnt s < seq_number (snd e))
          \<and> (\<forall>msg evs. inbox s = Datagram msg # evs
                \<longrightarrow> received_bytes_cnt s < seq_number (load 0 msg))
         \<longrightarrow> buffer s' = buffer s \<and> received_bytes_cnt s' = received_bytes_cnt s)"
proof (cases "inbox s")
  case Nil
  with assms(1,3) show ?thesis
    by (auto simp: receive_segment_def recvfrom_def split: if_splits)
next
  case (Cons ev evs)
  show ?thesis
  proof (cases ev)
    case SocketError
    with Cons assms(1,3) show ?thesis
      by (auto simp: receive_segment_def recvfrom_def)
  next
    case (Datagram msg)
    define now where "now = clock W (clock_reads s)"
    define segment where "segment = load now (take 1040 msg)"
    define s2 where "s2 = s\<lparr>sock_timeout := timeout, inbox := evs, clock_reads := Suc (clock_reads s)\<rparr>"
    have sl: "slice_of str segment"
      using assms(2) Cons Datagram slice_of_load [of str now] by (simp add: segment_def)
    have sq: "seq_number segment = seq_number (load 0 msg)"
      by (simp add: segment_def load_def TCPSegment_init_def)
    show ?thesis
    proof (cases "data segment = []")
      case True
      with assms(1,3) Cons Datagram show ?thesis
        by (auto simp: receive_segment_def recvfrom_def time_time_def Let_def max_data_sz_def
            segment_def now_def shift_send_window_def split: if_splits)
    next
      case False
      define s3 where "s3 = s2\<lparr>recv_window := pq_put (seq_number segment, segment) (recv_window s2)\<rparr>"
      obtain u s4 where sh: "shift_recv_window W s3 = (u, s4)"
        by (cases "shift_recv_window W s3") auto
      have w3: "window_of str (recv_window s3)"
        using assms(1) sl by (simp add: s3_def s2_def window_of_def set_pq_put)
      note io = shift_recv_window_in_order [OF w3 sh]
      have same: "received_bytes_cnt s' = received_bytes_cnt s4 \<and> buffer s' = buffer s4
          \<and> recv_window s' = recv_window s4"
        using assms(3) Cons Datagram False sh
        by (auto simp: receive_segment_def recvfrom_def time_time_def Let_def max_data_sz_def
            segment_def now_def shift_send_window_def s3_def s2_def split: if_splits sum.splits)
      have start: "received_bytes_cnt s3 = received_bytes_cnt s" "buffer s3 = buffer s"
        "set (recv_window s3) = insert (seq_number segment, segment) (set (recv_window s))"
        by (simp_all add: s3_def s2_def set_pq_put)
      from io same start sq Cons Datagram show ?thesis by auto
    qed
  qed
qed


theorem no_out_of_order_release_witness:
  "window_of gap_stream (recv_window gap_start)
   \<and> slice_of gap_stream (load 0 (take 1040 gap_late))
   \<and> receive_segment (udp (\<lambda>i. 0)) None gap_start = Some (Inr True, gap_held)
   \<and> buffer gap_held = buffer gap_start \<and> received_bytes_cnt gap_held = 10
   \<and> window_of gap_stream (recv_window gap_held)
   \<and> slice_of gap_stream (load 0 (take 1040 gap_early))
   \<and> receive_segment (udp (\<lambda>i. 0)) None gap_held = Some (Inr True, gap_filled)
   \<and> buffer gap_filled = drop 10 gap_stream"
  using no_out_of_order_release [of gap_stream gap_start "udp (\<lambda>i. 0)" None "Inr True" gap_held]
    no_out_of_order_release [of gap_stream gap_held "udp (\<lambda>i. 0)" None "Inr True" gap_filled]
  by (simp add: gap_stream_def gap_late_def gap_early_def gap_start_def gap_held_def
      gap_filled_def window_of_def slice_of_def run_simps)

subsection \<open>The send window on a transport that takes whole datagrams\<close>

lemma py_take_all: "py_take (int (length xs)) xs = xs"
  by (simp add: py_take_def)

lemma dump_Inl: "(dump segment = Inl e) = (e = OverflowError \<and> \<not> wire_range segment)"
  by (auto simp: dump_def to_bytes8_def wire_range_def split: sum.splits if_splits)

lemma dump_Inr:
  "(dump segment = Inr wire) =
     (wire_range segment
      \<and> wire = big_endian 8 (seq_number segment) @ big_endian 8 (ack_number segment) @ data segment)"
  by (auto simp: dump_def to_bytes8_def wire_range_def split: sum.splits if_splits)

lemma send_segment_whole:
  assumes "whole_datagrams W" and "send_segment W segment s = (r, s')"
  shows "(\<forall>n. r = Inr n \<longrightarrow> n = int (length (data segment)))
     \<and> sent_bytes_cnt s' = (if seq_number segment = sent_bytes_cnt s \<and> r \<noteq> Inl OverflowError
                             then sent_bytes_cnt s + int (length (data segment))
                             else sent_bytes_cnt s)
     \<and> (\<forall>e \<in> set (send_window s'). e \<in> set (send_window s)
           \<or> (data segment \<noteq> [] \<and> seq_number segment \<le> sent_bytes_cnt s
               \<and> fst e = seq_number segment
               \<and> snd e = segment\<lparr>sending_time := sending_time (snd e)\<rparr>))
     \<and> (r = Inl ValueError \<longrightarrow> sent_bytes_cnt s < seq_number segment)
     \<and> (r = Inl OverflowError \<longrightarrow> \<not> wire_range segment \<and> s' = s)
     \<and> (wire_range segment \<and> seq_number segment \<le> sent_bytes_cnt s \<longrightarrow> (\<exists>n. r = Inr n))"
  using assms
  by (auto simp: send_segment_def store_sent_def sendto_def time_time_def Let_def
      whole_datagrams_def py_take_all set_pq_put dump_Inl dump_Inr length_big_endian
      split: sum.splits prod.splits if_splits)

lemma send_segment_window_below:
  assumes "whole_datagrams W" and "window_below s" and "send_segment W segment s = (r, s')"
  shows "window_below s' \<and> sent_bytes_cnt s \<le> sent_bytes_cnt s'"
proof -
  note w = send_segment_whole [OF assms(1,3)]
  have mono: "sent_bytes_cnt s \<le> sent_bytes_cnt s'" using w by (simp split: if_splits)
  have "seq_number (snd e) < sent_bytes_cnt s'" if "e \<in> set (send_window s')" for e
  proof -
    from w that have "e \<in> set (send_window s)
        \<or> (data segment \<noteq> [] \<and> seq_number segment \<le> sent_bytes_cnt s
            \<and> fst e = seq_number segment
            \<and> snd e = segment\<lparr>sending_time := sending_time (snd e)\<rparr>)" by blast
    then show ?thesis
    proof
      assume "e \<in> set (send_window s)"
      with assms(2) mono show ?thesis by (auto simp: window_below_def)
    next
      assume n: "data segment \<noteq> [] \<and> seq_number segment \<le> sent_bytes_cnt s
            \<and> fst e = seq_number segment
            \<and> snd e = segment\<lparr>sending_time := sending_time (snd e)\<rparr>"
      then have sq: "seq_number (snd e) = seq_number segment"
        by (metis TCPSegment.select_convs(1) TCPSegment.surjective TCPSegment.update_convs(5))
      show ?thesis
      proof (cases "r = Inl OverflowError")
        case True
        with w have "s' = s" by simp
        with that assms(2) show ?thesis by (simp add: window_below_def)
      next
        case False
        with w n sq show ?thesis by (auto split: if_splits)
      qed
    qed
  qed
  with mono show ?thesis by (simp add: window_below_def)
qed

lemma set_shift_send_loop: "snd ` set (shift_send_loop q dc) \<subseteq> snd ` set q"
  by (induction q dc rule: shift_send_loop.induct) (auto simp: set_pq_put)

lemma expired_frame:
  "expired W segment s = (b, s') \<Longrightarrow> s' = s \<or> s' = s\<lparr>clock_reads := Suc (clock_reads s)\<rparr>"
  by (auto simp: expired_def time_time_def split: if_splits)

lemma resend_first_segment_whole:
  assumes "whole_datagrams W" and "window_below s" and "resend_first_segment W s = (r, s')"
  shows "window_below s' \<and> sent_bytes_cnt s' = sent_bytes_cnt s
     \<and> delivered_bytes_cnt s' = delivered_bytes_cnt s \<and> inbox s' = inbox s
     \<and> recv_errors s' = recv_errors s \<and> received_bytes_cnt s' = received_bytes_cnt s"
proof (cases "send_window s")
  case Nil
  with assms show ?thesis by (simp add: resend_first_segment_def)
next
  case (Cons e q)
  obtain k first_segment where e: "e = (k, first_segment)" by (cases e)
  obtain b s1 where ex: "expired W first_segment (s\<lparr>send_window := q\<rparr>) = (b, s1)"
    by (cases "expired W first_segment (s\<lparr>send_window := q\<rparr>)")
  have below: "seq_number first_segment < sent_bytes_cnt s"
    using assms(2) Cons e by (auto simp: window_below_def)
  have s1: "window_below s1 \<and> sent_bytes_cnt s1 = sent_bytes_cnt s
     \<and> delivered_bytes_cnt s1 = delivered_bytes_cnt s \<and> inbox s1 = inbox s
     \<and> recv_errors s1 = recv_errors s \<and> received_bytes_cnt s1 = received_bytes_cnt s
     \<and> send_window s1 = q"
    using expired_frame [OF ex] assms(2) Cons by (fastforce simp: window_below_def)
  show ?thesis
  proof (cases b)
    case True
    obtain r2 s2 where ss: "send_segment W first_segment s1 = (r2, s2)"
      by (cases "send_segment W first_segment s1")
    have s': "s' = s2" using assms(3) Cons e ex True ss
      by (auto simp: resend_first_segment_def split: sum.splits)
    from send_segment_whole [OF assms(1) ss] below s1
    have "sent_bytes_cnt s2 = sent_bytes_cnt s1" by (auto split: if_splits)
    with send_segment_window_below [OF assms(1) _ ss] send_segment_rx_frame [OF ss] s1 s'
    show ?thesis by simp
  next
    case False
    then have "s' = s1\<lparr>send_window := pq_put (seq_number first_segment, first_segment) (send_window s1)\<rparr>"
      using assms(3) Cons e ex by (auto simp: resend_first_segment_def)
    with s1 below assms(2) Cons show ?thesis
      by (auto simp: window_below_def set_pq_put)
  qed
qed

lemma send_segment_empty:
  "data segment = [] \<Longrightarrow> send_segment W segment s = (r, s') \<Longrightarrow> send_window s' = send_window s"
  by (auto simp: send_segment_def store_sent_def sendto_def Let_def
      split: sum.splits prod.splits if_splits)

lemma shift_recv_window_whole:
  assumes "whole_datagrams W" and "shift_recv_window W s = (r, s')"
  shows "sent_bytes_cnt s' = sent_bytes_cnt s \<and> send_window s' = send_window s
     \<and> delivered_bytes_cnt s' = delivered_bytes_cnt s \<and> inbox s' = inbox s
     \<and> recv_errors s' = recv_errors s"
proof (cases "recv_window s = []")
  case True
  with assms(2) show ?thesis by (auto simp: shift_recv_window_def)
next
  case False
  obtain q rc buf where l: "shift_recv_loop (recv_window s) (received_bytes_cnt s) (buffer s) = (q, rc, buf)"
    by (cases "shift_recv_loop (recv_window s) (received_bytes_cnt s) (buffer s)") auto
  define s2 where "s2 = s\<lparr>recv_window := q, received_bytes_cnt := rc, buffer := buf,
      clock_reads := Suc (clock_reads s)\<rparr>"
  define ack where "ack = TCPSegment_init (clock W (clock_reads s)) (sent_bytes_cnt s) rc []"
  obtain r3 s3 where ss: "send_segment W ack s2 = (r3, s3)" by (cases "send_segment W ack s2")
  have "s' = s3" using assms(2) False l ss
    by (auto simp: shift_recv_window_def time_time_def s2_def ack_def split: sum.splits)
  moreover have "data ack = []" by (simp add: ack_def TCPSegment_init_def)
  ultimately show ?thesis
    using send_segment_whole [OF assms(1) ss] send_segment_rx_frame [OF ss]
      send_segment_empty [OF _ ss]
    by (auto simp: s2_def ack_def TCPSegment_init_def split: if_splits)
qed

lemma receive_segment_timed_some: "receive_segment W (Some t) s \<noteq> None"
  by (auto simp: receive_segment_def recvfrom_def time_time_def Let_def
      split: sum.splits prod.splits if_splits list.splits rx_event.splits)

lemma sub_window_refl: "sub_window q q"
  by (simp add: sub_window_def)

lemma sub_window_shift: "sub_window (shift_send_loop q d) q"
  by (simp add: sub_window_def set_shift_send_loop)

lemma window_below_subset:
  "window_below s \<Longrightarrow> sub_window (send_window s') (send_window s) \<Longrightarrow>
     sent_bytes_cnt s' = sent_bytes_cnt s \<Longrightarrow> window_below s'"
  by (fastforce simp: window_below_def sub_window_def)

lemma receive_segment_shape:
  assumes "whole_datagrams W" and "receive_segment W timeout s = Some (r, s')"
  shows "sub_window (send_window s') (send_window s)
     \<and> sent_bytes_cnt s' = sent_bytes_cnt s \<and> delivered_bytes_cnt s \<le> delivered_bytes_cnt s'
     \<and> inbox s' = tl (inbox s) \<and> (r = Inr True \<longrightarrow> inbox s \<noteq> [])
     \<and> (r = Inr False \<longrightarrow> delivered_bytes_cnt s' = delivered_bytes_cnt s)
     \<and> (inbox s = [] \<longrightarrow> r = Inr False \<and> recv_errors s' = Suc (recv_errors s))"
  using assms(2)
  by (auto simp: receive_segment_def recvfrom_def time_time_def Let_def shift_send_window_def
      sub_window_refl sub_window_shift
      split: sum.splits prod.splits if_splits list.splits rx_event.splits
      dest!: shift_recv_window_whole [OF assms(1)])

lemma receive_segment_whole:
  assumes "whole_datagrams W" and "window_below s" and "receive_segment W timeout s = Some (r, s')"
  shows "window_below s'
     \<and> sent_bytes_cnt s' = sent_bytes_cnt s \<and> delivered_bytes_cnt s \<le> delivered_bytes_cnt s'
     \<and> inbox s' = tl (inbox s) \<and> (r = Inr True \<longrightarrow> inbox s \<noteq> [])
     \<and> (r = Inr False \<longrightarrow> delivered_bytes_cnt s' = delivered_bytes_cnt s)
     \<and> (inbox s = [] \<longrightarrow> r = Inr False \<and> recv_errors s' = Suc (recv_errors s))"
  using receive_segment_shape [OF assms(1,3)] window_below_subset [OF assms(2), of s'] by blast

subsection \<open>One pass of the loop of send\<close>

lemma length_payload:
  "length (py_take (min max_data_sz (int (length bs))) bs) = min 1024 (length bs)"
  by (simp add: py_take_def max_data_sz_def min_def)

lemma send_branch_carve:
  "carve bs s \<Longrightarrow> send_branch W bs n lag s =
     (case send_segment W
             (TCPSegment_init (clock W (clock_reads s)) (sent_bytes_cnt s) (received_bytes_cnt s)
                (py_take (min max_data_sz (int (length bs))) bs))
             (s\<lparr>clock_reads := Suc (clock_reads s)\<rparr>) of
        (Inl e, s2) \<Rightarrow> Some (Inl e, s2)
      | (Inr k, s2) \<Rightarrow> Some (Inr (py_drop k bs, n + k, lag), s2))"
  by (simp add: send_branch_def time_time_def)

lemma send_branch_wait:
  "\<not> carve bs s \<Longrightarrow> send_branch W bs n lag s =
     (case receive_segment W (Some ACK_TIMEOUT) s of
        None \<Rightarrow> None
      | Some (Inl e, s1) \<Rightarrow> Some (Inl e, s1)
      | Some (Inr True, s1) \<Rightarrow> Some (Inr (bs, n, 0), s1)
      | Some (Inr False, s1) \<Rightarrow> Some (Inr (bs, n, lag + 1), s1))"
  by (simp add: send_branch_def)

lemma send_body_Inl:
  "send_branch W bs n lag s = Some (Inl e, s1) \<Longrightarrow> send_body W bs n lag s = Some (Inl e, s1)"
  by (simp add: send_body_def)

lemma send_body_Inr:
  "send_branch W bs n lag s = Some (Inr vars, s1) \<Longrightarrow> resend_first_segment W s1 = (r, s2) \<Longrightarrow>
     send_body W bs n lag s = (case r of Inl e \<Rightarrow> Some (Inl e, s2) | Inr u \<Rightarrow> Some (Inr vars, s2))"
  by (simp add: send_body_def split: sum.splits)

lemma send_branch_carve_whole:
  assumes "whole_datagrams W" and "window_below s" and "carve bs s"
  shows "\<exists>res s1. send_branch W bs n lag s = Some (res, s1) \<and> window_below s1
     \<and> delivered_bytes_cnt s1 = delivered_bytes_cnt s \<and> inbox s1 = inbox s
     \<and> recv_errors s1 = recv_errors s \<and> received_bytes_cnt s1 = received_bytes_cnt s
     \<and> sent_bytes_cnt s \<le> sent_bytes_cnt s1 \<and> sent_bytes_cnt s1 \<le> sent_bytes_cnt s + max_data_sz
     \<and> (\<forall>vars. res = Inr vars \<longrightarrow>
           vars = (drop (min 1024 (length bs)) bs, n + int (min 1024 (length bs)), lag)
           \<and> sent_bytes_cnt s1 = sent_bytes_cnt s + int (min 1024 (length bs)))
     \<and> (\<forall>e. res = Inl e \<longrightarrow> e = OverflowError
           \<and> \<not> (0 \<le> sent_bytes_cnt s \<and> sent_bytes_cnt s < 2 ^ 64
                 \<and> 0 \<le> received_bytes_cnt s \<and> received_bytes_cnt s < 2 ^ 64))"
proof -
  let ?k = "min 1024 (length bs)"
  let ?payload = "py_take (min max_data_sz (int (length bs))) bs"
  let ?seg = "TCPSegment_init (clock W (clock_reads s)) (sent_bytes_cnt s) (received_bytes_cnt s) ?payload"
  let ?s1 = "s\<lparr>clock_reads := Suc (clock_reads s)\<rparr>"
  obtain r s2 where ss: "send_segment W ?seg ?s1 = (r, s2)" by (cases "send_segment W ?seg ?s1")
  have wb1: "window_below ?s1" using assms(2) by (simp add: window_below_def)
  have seg1: "seq_number ?seg = sent_bytes_cnt s" by (simp add: TCPSegment_init_def)
  have seg2: "length (data ?seg) = ?k" by (simp add: TCPSegment_init_def length_payload)
  have seg3: "wire_range ?seg = (0 \<le> sent_bytes_cnt s \<and> sent_bytes_cnt s < 2 ^ 64
                 \<and> 0 \<le> received_bytes_cnt s \<and> received_bytes_cnt s < 2 ^ 64)"
    by (simp add: TCPSegment_init_def wire_range_def)
  note w = send_segment_whole [OF assms(1) ss]
  have f: "delivered_bytes_cnt s2 = delivered_bytes_cnt s" "inbox s2 = inbox s"
    "recv_errors s2 = recv_errors s" "received_bytes_cnt s2 = received_bytes_cnt s"
    using send_segment_rx_frame [OF ss] by simp_all
  have b: "window_below s2" using send_segment_window_below [OF assms(1) wb1 ss] by simp
  have w1: "r = Inr n' \<Longrightarrow> n' = int ?k" for n' using w seg2 by simp
  have w2: "sent_bytes_cnt s2 = (if r \<noteq> Inl OverflowError then sent_bytes_cnt s + int ?k
                                 else sent_bytes_cnt s)"
    using w seg1 seg2 by simp
  have w3: "r \<noteq> Inl ValueError" using w seg1 by auto
  have w4: "r = Inl OverflowError \<Longrightarrow> \<not> wire_range ?seg" using w by blast
  have br: "send_branch W bs n lag s =
      (case r of Inl e \<Rightarrow> Some (Inl e, s2) | Inr k \<Rightarrow> Some (Inr (py_drop k bs, n + k, lag), s2))"
    by (simp add: send_branch_carve [OF assms(3)] ss split: sum.splits)
  have le: "int ?k \<le> max_data_sz" by (simp add: max_data_sz_def)
  show ?thesis
  proof (cases r)
    case (Inl e)
    have e: "e = OverflowError" using w3 Inl by (cases e) simp_all
    have "send_branch W bs n lag s = Some (Inl e, s2)" using br Inl by simp
    moreover have "sent_bytes_cnt s2 = sent_bytes_cnt s" using w2 Inl e by simp
    moreover have "\<not> (0 \<le> sent_bytes_cnt s \<and> sent_bytes_cnt s < 2 ^ 64
                 \<and> 0 \<le> received_bytes_cnt s \<and> received_bytes_cnt s < 2 ^ 64)"
      using w4 Inl e seg3 by simp
    ultimately show ?thesis using f b e by (simp add: max_data_sz_def)
  next
    case (Inr k)
    have k: "k = int ?k" using w1 Inr by simp
    have d: "py_drop k bs = drop ?k bs" by (simp add: k py_drop_def)
    have "send_branch W bs n lag s = Some (Inr (drop ?k bs, n + int ?k, lag), s2)"
      using br Inr d k by simp
    moreover have "sent_bytes_cnt s2 = sent_bytes_cnt s + int ?k" using w2 Inr by simp
    ultimately show ?thesis using f b le by simp
  qed
qed


lemma send_branch_wait_whole:
  assumes "whole_datagrams W" and "window_below s" and "\<not> carve bs s"
  shows "\<exists>res s1. send_branch W bs n lag s = Some (res, s1) \<and> window_below s1
     \<and> sent_bytes_cnt s1 = sent_bytes_cnt s \<and> delivered_bytes_cnt s \<le> delivered_bytes_cnt s1
     \<and> inbox s1 = tl (inbox s)
     \<and> (\<forall>vars. res = Inr vars \<longrightarrow>
           (vars = (bs, n, 0) \<and> inbox s \<noteq> [])
           \<or> (vars = (bs, n, lag + 1) \<and> delivered_bytes_cnt s1 = delivered_bytes_cnt s))"
proof -
  obtain r s1 where rs: "receive_segment W (Some ACK_TIMEOUT) s = Some (r, s1)"
    using receive_segment_timed_some [of W ACK_TIMEOUT s] by (cases "receive_segment W (Some ACK_TIMEOUT) s") auto
  note w = receive_segment_whole [OF assms(1,2) rs]
  show ?thesis
  proof (cases r)
    case (Inl e)
    then have "send_branch W bs n lag s = Some (Inl e, s1)"
      by (simp add: send_branch_wait [OF assms(3)] rs)
    with w show ?thesis by simp
  next
    case (Inr b)
    then have "send_branch W bs n lag s = Some (Inr (bs, n, if b then 0 else lag + 1), s1)"
      by (simp add: send_branch_wait [OF assms(3)] rs)
    with w Inr show ?thesis by (cases b) simp_all
  qed
qed

lemma send_body_step:
  assumes "whole_datagrams W" and "window_below s" and "in_flight s \<le> window_sz + max_data_sz"
    and "0 \<le> lag" and "send_guard bs lag s"
  shows "\<exists>res s1. send_body W bs n lag s = Some (res, s1) \<and> window_below s1
     \<and> in_flight s1 \<le> window_sz + max_data_sz
     \<and> (\<forall>bs' n' lag'. res = Inr (bs', n', lag') \<longrightarrow>
           0 \<le> lag' \<and> loop_measure bs' lag' s1 < loop_measure bs lag s)"
proof -
  have lag: "lag < 64" using assms(5) by (simp add: send_guard_def max_lag_def)
  have "\<exists>res s1. send_branch W bs n lag s = Some (res, s1) \<and> window_below s1
     \<and> in_flight s1 \<le> window_sz + max_data_sz
     \<and> (\<forall>bs' n' lag'. res = Inr (bs', n', lag') \<longrightarrow>
           0 \<le> lag' \<and> loop_measure bs' lag' s1 < loop_measure bs lag s)"
  proof (cases "carve bs s")
    case True
    from send_branch_carve_whole [OF assms(1,2) True, of n lag]
    obtain res s1 where c: "send_branch W bs n lag s = Some (res, s1)" "window_below s1"
      "delivered_bytes_cnt s1 = delivered_bytes_cnt s" "inbox s1 = inbox s"
      "sent_bytes_cnt s1 \<le> sent_bytes_cnt s + max_data_sz"
      "\<forall>vars. res = Inr vars \<longrightarrow>
           vars = (drop (min 1024 (length bs)) bs, n + int (min 1024 (length bs)), lag)"
      by blast
    have "in_flight s1 \<le> window_sz + max_data_sz"
      using True c(3,5) by (simp add: carve_def in_flight_def)
    moreover have "bs \<noteq> []" using True by (simp add: carve_def)
    then have "length (drop (min 1024 (length bs)) bs) < length bs" by (cases bs) simp_all
    then have "loop_measure (drop (min 1024 (length bs)) bs) lag s1 < loop_measure bs lag s"
      using c(4) by (simp add: loop_measure_def)
    ultimately show ?thesis using c(1,2,6) assms(4) by auto
  next
    case False
    from send_branch_wait_whole [OF assms(1,2) False, of n lag]
    obtain res s1 where c: "send_branch W bs n lag s = Some (res, s1)" "window_below s1"
      "sent_bytes_cnt s1 = sent_bytes_cnt s" "delivered_bytes_cnt s \<le> delivered_bytes_cnt s1"
      "inbox s1 = tl (inbox s)"
      "\<forall>vars. res = Inr vars \<longrightarrow>
           (vars = (bs, n, 0) \<and> inbox s \<noteq> [])
           \<or> (vars = (bs, n, lag + 1) \<and> delivered_bytes_cnt s1 = delivered_bytes_cnt s)"
      by blast
    have "in_flight s1 \<le> window_sz + max_data_sz"
      using assms(3) c(3,4) by (simp add: in_flight_def)
    moreover have "loop_measure bs 0 s1 < loop_measure bs lag s" if "inbox s \<noteq> []"
      using that c(5) lag assms(4) by (cases "inbox s") (simp_all add: loop_measure_def max_lag_def)
    moreover have "loop_measure bs (lag + 1) s1 < loop_measure bs lag s"
      using c(5) lag assms(4) by (cases "inbox s") (simp_all add: loop_measure_def max_lag_def)
    ultimately show ?thesis using c(1,2,6) assms(4) by auto
  qed
  then obtain res s1 where c: "send_branch W bs n lag s = Some (res, s1)" "window_below s1"
      "in_flight s1 \<le> window_sz + max_data_sz"
      "\<forall>bs' n' lag'. res = Inr (bs', n', lag') \<longrightarrow>
           0 \<le> lag' \<and> loop_measure bs' lag' s1 < loop_measure bs lag s"
    by blast
  show ?thesis
  proof (cases res)
    case (Inl e)
    with c show ?thesis using send_body_Inl [of W bs n lag s e s1] by simp
  next
    case (Inr vars)
    obtain r s2 where rs: "resend_first_segment W s1 = (r, s2)" by (cases "resend_first_segment W s1")
    note w = resend_first_segment_whole [OF assms(1) c(2) rs]
    have m: "loop_measure bs' lag' s2 = loop_measure bs' lag' s1" for bs' lag'
      using w by (simp add: loop_measure_def)
    have fl: "in_flight s2 = in_flight s1" using w by (simp add: in_flight_def)
    have "send_body W bs n lag s = (case r of Inl e \<Rightarrow> Some (Inl e, s2) | Inr u \<Rightarrow> Some (Inr vars, s2))"
      using send_body_Inr [OF _ rs] c(1) Inr by simp
    with w c(3,4) Inr m fl show ?thesis by (cases r) auto
  qed
qed


lemma send_loop_total:
  assumes "whole_datagrams W"
  shows "window_below s \<Longrightarrow> in_flight s \<le> window_sz + max_data_sz \<Longrightarrow> 0 \<le> lag \<Longrightarrow>
     \<exists>r s'. send_loop W bs n lag s = Some (r, s') \<and> window_below s'
       \<and> in_flight s' \<le> window_sz + max_data_sz"
proof (induction "loop_measure bs lag s" arbitrary: bs n lag s rule: less_induct)
  case less
  show ?case
  proof (cases "send_guard bs lag s")
    case False
    then have "send_loop W bs n lag s = Some (Inr n, s)"
      by (subst send_loop.simps) simp
    with less.prems show ?thesis by simp
  next
    case True
    from send_body_step [OF assms less.prems(1,2,3) True, of n]
    obtain res s1 where c: "send_body W bs n lag s = Some (res, s1)" "window_below s1"
      "in_flight s1 \<le> window_sz + max_data_sz"
      "\<forall>bs' n' lag'. res = Inr (bs', n', lag') \<longrightarrow>
           0 \<le> lag' \<and> loop_measure bs' lag' s1 < loop_measure bs lag s"
      by blast
    show ?thesis
    proof (cases res)
      case (Inl e)
      then have "send_loop W bs n lag s = Some (Inl e, s1)"
        using True c(1) by (subst send_loop.simps) simp
      with c(2,3) show ?thesis by simp
    next
      case (Inr vars)
      obtain bs' n' lag' where v: "vars = (bs', n', lag')" by (cases vars)
      have eq: "send_loop W bs n lag s = send_loop W bs' n' lag' s1"
        using True c(1) Inr v by (subst send_loop.simps) simp
      from c(4) Inr v have "0 \<le> lag'" "loop_measure bs' lag' s1 < loop_measure bs lag s"
        by simp_all
      from less.hyps [OF this(2) c(2,3) this(1), of n'] eq show ?thesis by simp
    qed
  qed
qed

subsection \<open>The states the protocol reaches\<close>

text \<open>A fresh connection has no segment in flight, and \<^verbatim>\<open>recv\<close> keeps the segments in
  flight below the cursor and the bytes in flight within the bound, as \<^verbatim>\<open>send\<close> does
  (below).\<close>

lemma window_below_init: "window_below (init evs) \<and> window_ready (init evs) \<and> in_flight (init evs) = 0"
  by (simp add: window_below_def window_ready_def in_flight_def init_def)

lemma recv_drain_send_side:
  "recv_drain data_sz acc s = (acc1, s1) \<Longrightarrow>
     send_window s1 = send_window s \<and> sent_bytes_cnt s1 = sent_bytes_cnt s
     \<and> delivered_bytes_cnt s1 = delivered_bytes_cnt s"
  by (auto simp: recv_drain_def Let_def)

lemma recv_loop_send_side:
  "whole_datagrams W \<Longrightarrow> window_below s \<Longrightarrow> in_flight s \<le> window_sz + max_data_sz \<Longrightarrow>
     recv_loop W data_sz acc s = Some (r, s') \<Longrightarrow>
     window_below s' \<and> in_flight s' \<le> window_sz + max_data_sz"
proof (induction W data_sz acc s rule: recv_loop.induct)
  case (1 W data_sz acc s)
  note whole = "1.prems"(1) and res = "1.prems"(4)
  show ?case
  proof (cases "int (length acc) < data_sz")
    case False
    with "1.prems" show ?thesis by (simp add: recv_loop.simps)
  next
    case True
    obtain acc1 s1 where d: "recv_drain data_sz acc s = (acc1, s1)" by (cases "recv_drain data_sz acc s")
    note f = recv_drain_send_side [OF d]
    have b1: "window_below s1" "in_flight s1 \<le> window_sz + max_data_sz"
      using f "1.prems"(2,3) by (simp_all add: window_below_def in_flight_def)
    show ?thesis
    proof (cases "int (length acc1) < data_sz")
      case False
      have "recv_loop W data_sz acc s = recv_loop W data_sz acc1 s1"
        using True d False by (subst recv_loop.simps) simp
      with "1.IH"(2) [OF True d [symmetric] False whole b1] res show ?thesis by simp
    next
      case lt: True
      show ?thesis
      proof (cases "receive_segment W None s1")
        case None
        then have "recv_loop W data_sz acc s = None"
          using True d lt by (subst recv_loop.simps) simp
        with res show ?thesis by simp
      next
        case (Some p)
        obtain r2 s2 where p: "p = (r2, s2)" by (cases p)
        note w = receive_segment_whole [OF whole b1(1) Some [unfolded p]]
        have b2: "window_below s2" "in_flight s2 \<le> window_sz + max_data_sz"
          using w b1(2) by (simp_all add: in_flight_def)
        show ?thesis
        proof (cases r2)
          case (Inl e)
          then have "recv_loop W data_sz acc s = Some (Inl e, s2)"
            using True d lt Some p by (subst recv_loop.simps) simp
          with res b2 show ?thesis by simp
        next
          case (Inr b)
          then have "recv_loop W data_sz acc s = recv_loop W data_sz acc1 s2"
            using True d lt Some p by (subst recv_loop.simps) simp
          with "1.IH"(1) [OF True d [symmetric] lt Some [unfolded p Inr] refl refl whole b2] res
          show ?thesis by simp
        qed
      qed
    qed
  qed
qed

subsection \<open>The window bound\<close>

text \<open>
  Claim C6. On a transport that takes whole datagrams, from every state in which the
  segments in flight lie below \<^verbatim>\<open>_sent_bytes_cnt\<close> (as they do in every state the
  protocol reaches there) and \<^verbatim>\<open>_sent_bytes_cnt - _delivered_bytes_cnt\<close> is at most
  \<^verbatim>\<open>window_sz + max_data_sz\<close>, and for every sequence of events at the endpoint,
  \<^verbatim>\<open>send\<close> comes to an end, and in the state it leaves
  \<^verbatim>\<open>_sent_bytes_cnt - _delivered_bytes_cnt\<close> is at most \<^verbatim>\<open>window_sz + max_data_sz\<close>,
  that is 4096 + 1024; the segments in flight lie below the cursor again.
\<close>

theorem window_bound_after_send:
  assumes "whole_datagrams W" and "window_below s"
    and "sent_bytes_cnt s - delivered_bytes_cnt s \<le> window_sz + max_data_sz"
  shows "\<exists>r s'. send W bs s = Some (r, s')
     \<and> sent_bytes_cnt s' - delivered_bytes_cnt s' \<le> window_sz + max_data_sz
     \<and> window_sz + max_data_sz = 4096 + 1024 \<and> window_below s'"
  using send_loop_total [OF assms(1,2), of 0 bs 0] assms(3)
  by (simp add: send_def in_flight_def window_sz_def max_data_sz_def) blast

theorem window_bound_after_send_witness:
  "whole_datagrams (udp (\<lambda>i. 0))
   \<and> window_below (init [Datagram [0, 0, 0, 0, 0, 0, 0, 0, 0, 0, 0, 0, 0, 0, 0, 3]])
   \<and> sent_bytes_cnt (init [Datagram [0, 0, 0, 0, 0, 0, 0, 0, 0, 0, 0, 0, 0, 0, 0, 3]])
        - delivered_bytes_cnt (init [Datagram [0, 0, 0, 0, 0, 0, 0, 0, 0, 0, 0, 0, 0, 0, 0, 3]])
       \<le> window_sz + max_data_sz
   \<and> send (udp (\<lambda>i. 0)) [1, 2, 3] (init [Datagram [0, 0, 0, 0, 0, 0, 0, 0, 0, 0, 0, 0, 0, 0, 0, 3]])
       = Some (Inr 3, (init [])\<lparr>sent_bytes_cnt := 3, delivered_bytes_cnt := 3,
                  sock_timeout := Some (1 / 100), clock_reads := 4,
                  outbox := [[0, 0, 0, 0, 0, 0, 0, 0, 0, 0, 0, 0, 0, 0, 0, 0, 1, 2, 3]]\<rparr>)
   \<and> sent_bytes_cnt ((init [])\<lparr>sent_bytes_cnt := 3, delivered_bytes_cnt := 3\<rparr>)
        - delivered_bytes_cnt ((init [])\<lparr>sent_bytes_cnt := 3, delivered_bytes_cnt := 3\<rparr>)
       \<le> window_sz + max_data_sz"
  using window_bound_after_send [of "udp (\<lambda>i. 0)"
      "init [Datagram [0, 0, 0, 0, 0, 0, 0, 0, 0, 0, 0, 0, 0, 0, 0, 3]]" "[1, 2, 3]"]
  by (simp add: whole_datagrams_def window_below_def send_def send_loop.simps run_simps)

subsection \<open>The counter of consecutive timeouts\<close>

lemma send_reaches_loop:
  "send_reaches W bs0 s0 c \<Longrightarrow>
     (case c of (bs, n, lag, s) \<Rightarrow> send_loop W bs n lag s) = send W bs0 s0"
proof (induction rule: send_reaches.induct)
  case start
  show ?case by (simp add: send_def)
next
  case (pass bs n lag s bs' n' lag' s')
  have "send_loop W bs n lag s = send_loop W bs' n' lag' s'"
    using pass.hyps(2,3) by (subst send_loop.simps) simp
  with pass.IH show ?case by simp
qed

lemma expired_cursors:
  "expired W segment s = (b, s') \<Longrightarrow>
     sent_bytes_cnt s' = sent_bytes_cnt s \<and> delivered_bytes_cnt s' = delivered_bytes_cnt s
     \<and> send_window s' = send_window s"
  using expired_frame [of W segment s b s'] by auto

lemma resend_first_segment_min_header:
  assumes "min_header W" and "resend_first_segment W s = (r, s')"
  shows "sent_bytes_cnt s \<le> sent_bytes_cnt s' \<and> delivered_bytes_cnt s' = delivered_bytes_cnt s"
proof (cases "send_window s")
  case Nil
  with assms(2) show ?thesis by (simp add: resend_first_segment_def)
next
  case (Cons e q)
  obtain k first_segment where e: "e = (k, first_segment)" by (cases e)
  obtain b s1 where ex: "expired W first_segment (s\<lparr>send_window := q\<rparr>) = (b, s1)"
    by (cases "expired W first_segment (s\<lparr>send_window := q\<rparr>)")
  have s1: "sent_bytes_cnt s1 = sent_bytes_cnt s" "delivered_bytes_cnt s1 = delivered_bytes_cnt s"
    using expired_cursors [OF ex] by simp_all
  show ?thesis
  proof (cases b)
    case True
    obtain r2 s2 where ss: "send_segment W first_segment s1 = (r2, s2)"
      by (cases "send_segment W first_segment s1")
    have "s' = s2" using assms(2) Cons e ex True ss
      by (auto simp: resend_first_segment_def split: sum.splits)
    with send_segment_sent_mono [OF ss assms(1)] send_segment_rx_frame [OF ss] s1
    show ?thesis by simp
  next
    case False
    then have "s' = s1\<lparr>send_window := pq_put (seq_number first_segment, first_segment) (send_window s1)\<rparr>"
      using assms(2) Cons e ex by (auto simp: resend_first_segment_def)
    with s1 show ?thesis by simp
  qed
qed

lemma receive_segment_False:
  "receive_segment W timeout s = Some (Inr False, s') \<Longrightarrow>
     sent_bytes_cnt s' = sent_bytes_cnt s \<and> delivered_bytes_cnt s' = delivered_bytes_cnt s"
  by (auto simp: receive_segment_def recvfrom_def time_time_def Let_def
      split: sum.splits prod.splits if_splits list.splits rx_event.splits)


lemma send_body_SomeD:
  "send_body W bs n lag s = Some (Inr vars, s') \<Longrightarrow>
     \<exists>s1 u. send_branch W bs n lag s = Some (Inr vars, s1) \<and> resend_first_segment W s1 = (Inr u, s')"
  by (auto simp: send_body_def split: option.splits sum.splits prod.splits)

lemma send_branch_carve_lag:
  "carve bs s \<Longrightarrow> send_branch W bs n lag s = Some (Inr (bs', n', lag'), s1) \<Longrightarrow> lag' = lag"
  by (auto simp: send_branch_carve split: sum.splits prod.splits)

lemma send_branch_wait_lag:
  "\<not> carve bs s \<Longrightarrow> send_branch W bs n lag s = Some (Inr (bs', n', lag'), s1) \<Longrightarrow>
     bs' = bs \<and> (lag' = 0 \<or> (sent_bytes_cnt s1 = sent_bytes_cnt s
                               \<and> delivered_bytes_cnt s1 = delivered_bytes_cnt s))"
  by (auto simp: send_branch_wait split: option.splits sum.splits prod.splits bool.splits
      dest: receive_segment_False)

lemma send_body_lag:
  assumes "min_header W" and "send_body W bs n lag s = Some (Inr (bs', n', lag'), s')"
    and "lag = 0 \<or> \<not> carve bs s"
  shows "(carve bs s \<longrightarrow> lag' = 0) \<and> (lag' = 0 \<or> \<not> carve bs' s')"
proof -
  from send_body_SomeD [OF assms(2)]
  obtain s1 u where br: "send_branch W bs n lag s = Some (Inr (bs', n', lag'), s1)"
    and rs: "resend_first_segment W s1 = (Inr u, s')" by blast
  note m = resend_first_segment_min_header [OF assms(1) rs]
  show ?thesis
  proof (cases "carve bs s")
    case True
    with assms(3) send_branch_carve_lag [OF True br] show ?thesis by simp
  next
    case False
    from send_branch_wait_lag [OF False br] m False show ?thesis
      by (auto simp: carve_def)
  qed
qed

lemma send_reaches_lag:
  assumes "min_header W" and "send_reaches W bs0 s0 c"
  shows "case c of (bs, n, lag, s) \<Rightarrow> lag = 0 \<or> \<not> carve bs s"
  using assms(2)
proof (induction rule: send_reaches.induct)
  case start
  show ?case by simp
next
  case (pass bs n lag s bs' n' lag' s')
  from pass.IH have "lag = 0 \<or> \<not> carve bs s" by simp
  from send_body_lag [OF assms(1) pass.hyps(3) this] show ?case by simp
qed

text \<open>
  Claim C5. In every pass of the loop of \<^verbatim>\<open>send\<close> that carves and transmits a new
  segment (the window is not full and payload remains), \<^verbatim>\<open>lag\<close> is 0 when the pass
  ends, on a transport that reports at least the 16 header bytes of every datagram.
  The branch holds no assignment to \<^verbatim>\<open>lag\<close>: the counter is 0 at the end because it
  was 0 at the start, since after a timeout the window stays full until a datagram
  arrives, and a datagram sets \<^verbatim>\<open>lag\<close> to 0.
\<close>

theorem carve_pass_lag_zero:
  assumes "min_header W" and "send_reaches W bs0 s0 (bs, n, lag, s)"
    and "send_guard bs lag s" and "carve bs s"
    and "send_body W bs n lag s = Some (Inr (bs', n', lag'), s')"
  shows "lag' = 0"
proof -
  from send_reaches_lag [OF assms(1,2)] have "lag = 0 \<or> \<not> carve bs s" by simp
  from send_body_lag [OF assms(1,5) this] assms(4) show ?thesis by simp
qed

theorem carve_pass_lag_zero_witness:
  "min_header (udp (\<lambda>i. 0))
   \<and> send_reaches (udp (\<lambda>i. 0)) [1] lag_start ([1], 0, 1, lag_waited)
   \<and> send_reaches (udp (\<lambda>i. 0)) [1] lag_start ([1], 0, 0, lag_opened)
   \<and> send_guard [1] 0 lag_opened \<and> carve [1] lag_opened
   \<and> send_body (udp (\<lambda>i. 0)) [1] 0 0 lag_opened = Some (Inr ([], 1, 0), lag_carved)"
proof -
  have 1: "send_reaches (udp (\<lambda>i. 0)) [1] lag_start ([1], 0, 1, lag_waited)"
    by (rule send_reaches.pass [OF send_reaches.start]) (simp_all add: lag_defs run_simps)
  have 2: "send_reaches (udp (\<lambda>i. 0)) [1] lag_start ([1], 0, 0, lag_opened)"
    by (rule send_reaches.pass [OF 1]) (simp_all add: lag_defs run_simps)
  have 3: "send_guard [1] 0 lag_opened" "carve [1] lag_opened"
    by (simp_all add: lag_defs run_simps)
  have 4: "send_body (udp (\<lambda>i. 0)) [1] 0 0 lag_opened = Some (Inr ([], 1, 0), lag_carved)"
    by (simp add: lag_defs run_simps)
  have 5: "min_header (udp (\<lambda>i. 0))" by (rule min_header_udp)
  from carve_pass_lag_zero [OF 5 2 3 4] 1 2 3 4 5 show ?thesis by simp
qed

subsection \<open>send to a peer that acknowledges nothing\<close>

























end
